theory Spec2Isabelle
  imports Complex_Main "HOL-Library.Sublist"
begin

section \<open>JavaScript values used by the client\<close>

text \<open>
  A JavaScript \<open>number\<close>: a finite value, or one of the three special values.
  The client only compares pattern numbers with \<open>===\<close> and \<open>>\<close> against literals,
  so a finite value is kept as the real it denotes.
\<close>

datatype number = Num real | NaN | PosInfinity | NegInfinity

text \<open>\<open>v > 0\<close> on a number.\<close>

fun positive :: "number \<Rightarrow> bool" where
  "positive (Num r) = (0 < r)"
| "positive PosInfinity = True"
| "positive NaN = False"
| "positive NegInfinity = False"

text \<open>
  Truthiness of an optional string (\<open>if (lastMessage.session_code)\<close>, \<open>&& url\<close>):
  \<open>undefined\<close>, \<open>null\<close> and the empty string are falsy.
\<close>

fun truthy :: "string option \<Rightarrow> bool" where
  "truthy None = False"
| "truthy (Some s) = (s \<noteq> [])"

text \<open>\<open>s?.includes(t)\<close>: false on an absent string, substring test otherwise.\<close>

fun includes_str :: "string option \<Rightarrow> string \<Rightarrow> bool" where
  "includes_str None t = False"
| "includes_str (Some s) t = sublist t s"

text \<open>The regular-expression classes \<open>\d\<close> and \<open>\D\<close> of JavaScript: ASCII digits only.\<close>

definition digit :: "char \<Rightarrow> bool" where
  "digit c = (c \<in> set ''0123456789'')"


text \<open>
  \<open>/^\d{6}$/.test(s)\<close>: without the \<open>m\<close> flag \<open>^\<close> and \<open>$\<close> match only at the two ends of
  the input, so the test holds exactly for a string of six digits.
\<close>

definition test_six_digits :: "string \<Rightarrow> bool" where
  "test_six_digits s = (length s = 6 \<and> list_all digit s)"

section \<open>Wire messages: frontend/src/types/websocket.ts\<close>

datatype MessageType =
    create_session
  | join_session
  | vibrate
  | partner_connected
  | partner_disconnected
  | session_created
  | session_joined
  | error

text \<open>The two literal unions that type the \<open>type\<close> field of SessionMessage and StatusMessage.\<close>

datatype SessionMessageType = type_create_session | type_join_session

datatype StatusMessageType =
    type_partner_connected
  | type_partner_disconnected
  | type_session_created
  | type_session_joined
  | type_error

text \<open>
  \<open>WebSocketMessage = VibrateMessage | SessionMessage | StatusMessage\<close>. A field declared with
  \<open>?\<close> is an option (\<open>None\<close>: the property is absent). \<open>user_count\<close> is a member count and is
  kept as an integer.
\<close>

datatype WebSocketMessage =
    VibrateMessage number
  | SessionMessage SessionMessageType "string option"
  | StatusMessage StatusMessageType "string option" "string option" "int option"

datatype ConnectionStatus = connecting | connected | disconnected | error_status

fun msg_type :: "WebSocketMessage \<Rightarrow> MessageType" where
  "msg_type (VibrateMessage p) = vibrate"
| "msg_type (SessionMessage type_create_session c) = create_session"
| "msg_type (SessionMessage type_join_session c) = join_session"
| "msg_type (StatusMessage type_partner_connected c m u) = partner_connected"
| "msg_type (StatusMessage type_partner_disconnected c m u) = partner_disconnected"
| "msg_type (StatusMessage type_session_created c m u) = session_created"
| "msg_type (StatusMessage type_session_joined c m u) = session_joined"
| "msg_type (StatusMessage type_error c m u) = error"

text \<open>Property reads on a message of the union; a property the variant lacks reads \<open>undefined\<close>.\<close>

fun msg_pattern :: "WebSocketMessage \<Rightarrow> number option" where
  "msg_pattern (VibrateMessage p) = Some p"
| "msg_pattern (SessionMessage t c) = None"
| "msg_pattern (StatusMessage t c m u) = None"

fun msg_session_code :: "WebSocketMessage \<Rightarrow> string option" where
  "msg_session_code (VibrateMessage p) = None"
| "msg_session_code (SessionMessage t c) = c"
| "msg_session_code (StatusMessage t c m u) = c"

fun msg_message :: "WebSocketMessage \<Rightarrow> string option" where
  "msg_message (VibrateMessage p) = None"
| "msg_message (SessionMessage t c) = None"
| "msg_message (StatusMessage t c m u) = m"

fun msg_user_count :: "WebSocketMessage \<Rightarrow> int option" where
  "msg_user_count (VibrateMessage p) = None"
| "msg_user_count (SessionMessage t c) = None"
| "msg_user_count (StatusMessage t c m u) = u"

text \<open>The names of the properties a message carries besides \<open>type\<close>, in declaration order.\<close>

definition carried_fields :: "WebSocketMessage \<Rightarrow> string list" where
  "carried_fields m =
     (if msg_pattern m \<noteq> None then [''pattern''] else []) @
     (if msg_session_code m \<noteq> None then [''session_code''] else []) @
     (if msg_message m \<noteq> None then [''message''] else []) @
     (if msg_user_count m \<noteq> None then [''user_count''] else [])"

text \<open>
  The properties the interface of a variant declares besides \<open>type\<close>, and those among them
  it requires (declared without \<open>?\<close>).
\<close>

fun declared_fields :: "MessageType \<Rightarrow> string list" where
  "declared_fields vibrate = [''pattern'']"
| "declared_fields create_session = [''session_code'']"
| "declared_fields join_session = [''session_code'']"
| "declared_fields t = [''session_code'', ''message'', ''user_count'']"

fun required_fields :: "MessageType \<Rightarrow> string list" where
  "required_fields vibrate = [''pattern'']"
| "required_fields t = []"

text \<open>
  The message table of the specification (section 3), with the wire names of section 6:
  the fields each variant is listed with.
\<close>

fun table_fields :: "MessageType \<Rightarrow> string list" where
  "table_fields create_session = []"
| "table_fields join_session = [''session_code'']"
| "table_fields vibrate = [''pattern'']"
| "table_fields session_created = [''session_code'']"
| "table_fields session_joined = [''session_code'']"
| "table_fields partner_connected = [''user_count'']"
| "table_fields partner_disconnected = [''user_count'']"
| "table_fields error = [''message'']"

section \<open>Haptic feedback: the two versions of utils/haptic.ts\<close>

datatype haptic_type = light | medium | heavy

text \<open>\<open>patternToHapticType\<close>: a \<open>switch\<close> on strict equality with the labels 1 to 4.\<close>

definition patternToHapticType :: "number \<Rightarrow> haptic_type" where
  "patternToHapticType pattern =
     (if pattern = Num 1 then light
      else if pattern = Num 2 then medium
      else if pattern = Num 3 then heavy
      else if pattern = Num 4 then heavy
      else medium)"

text \<open>\<open>pattern.filter((v, i) => i % 2 === 0 && v > 0).length\<close>\<close>

definition getVibrationCount :: "number list \<Rightarrow> nat" where
  "getVibrationCount pattern =
     length (filter (\<lambda>(v, i). i mod 2 = 0 \<and> positive v) (zip pattern [0..<length pattern]))"

text \<open>The argument \<open>pattern: number | number[]\<close>.\<close>

datatype pattern_arg = Single number | Custom "number list"

text \<open>
  The first part of \<open>triggerHaptic\<close> (first version): the pair
  \<open>(patternArray, patternNumber)\<close> it computes from its argument.
\<close>

fun selectPattern :: "pattern_arg \<Rightarrow> number list \<times> number" where
  "selectPattern (Single pattern) =
     ((if pattern = Num 1 then [Num 200]
       else if pattern = Num 2 then [Num 200, Num 100, Num 200]
       else if pattern = Num 3 then [Num 200, Num 100, Num 200, Num 100, Num 200]
       else if pattern = Num 4 then [Num 200, Num 100, Num 200, Num 100, Num 200, Num 100, Num 200]
       else [Num 200]),
      pattern)"
| "selectPattern (Custom pattern) = (pattern, Num (real (getVibrationCount pattern)))"

text \<open>The same part of the second version, which adds the label 5.\<close>

fun selectPattern2 :: "pattern_arg \<Rightarrow> number list \<times> number" where
  "selectPattern2 (Single pattern) =
     ((if pattern = Num 1 then [Num 200]
       else if pattern = Num 2 then [Num 200, Num 100, Num 200]
       else if pattern = Num 3 then [Num 200, Num 100, Num 200, Num 100, Num 200]
       else if pattern = Num 4 then [Num 200, Num 100, Num 200, Num 100, Num 200, Num 100, Num 200]
       else if pattern = Num 5 then [Num 5000]
       else [Num 200]),
      pattern)"
| "selectPattern2 (Custom pattern) = (pattern, Num (real (getVibrationCount pattern)))"

text \<open>
  What the device and the browser answer when \<open>triggerHaptic\<close> asks: the three probes, and
  for each call that can throw or reject whether it does.
\<close>

record platform =
  isCapacitor :: bool
  importResolves :: bool
  impactResolves :: "nat \<Rightarrow> bool"
  isVibrationAPISupported :: bool
  vibrateThrows :: bool
  vibrateResult :: bool
  isIOS :: bool

datatype ImpactStyle = Light | Medium | Heavy

datatype effect =
    Impact ImpactStyle
  | Sleep nat
  | Vibrate "number list"
  | Warn string
  | Info string
  | Log string

text \<open>How the promise of the \<open>async\<close> function settles.\<close>

datatype outcome = Resolved | Rejected

text \<open>
  The loop \<open>for (let i = 0; i < count; i++)\<close> over \<open>Haptics.impact\<close>, from index \<open>i\<close>: the
  effects performed, and whether the loop ran to its end (\<open>False\<close>: an impact rejected
  and the exception left the loop).
\<close>

function impactLoop :: "(nat \<Rightarrow> bool) \<Rightarrow> ImpactStyle \<Rightarrow> nat \<Rightarrow> nat \<Rightarrow> nat \<Rightarrow> effect list \<times> bool" where
  "impactLoop resolves style pause count i =
     (if i < count then
        (if resolves i then
           (let (es, finished) = impactLoop resolves style pause count (i + 1)
            in (Impact style # (if i < count - 1 then [Sleep pause] else []) @ es, finished))
         else ([], False))
      else ([], True))"
  by pat_completeness auto
termination
  by (relation "measure (\<lambda>(resolves, style, pause, count, i). count - i)") auto

declare impactLoop.simps [simp del]

text \<open>
  The \<open>try\<close> block of the Capacitor branch with its \<open>catch\<close>: the effects, and whether the
  function returned from inside the block.
\<close>

definition capacitorBranch :: "platform \<Rightarrow> number list \<Rightarrow> number \<Rightarrow> effect list \<times> bool" where
  "capacitorBranch env patternArray patternNumber =
     (if importResolves env then
        (let hapticType = patternToHapticType patternNumber;
             style = (if hapticType = light then Light
                      else if hapticType = heavy then Heavy
                      else Medium);
             count = getVibrationCount patternArray;
             (es, finished) = impactLoop (impactResolves env) style 150 count 0
         in if finished then (es, True)
            else (es @ [Warn ''Capacitor Haptics not available:''], False))
      else ([Warn ''Capacitor Haptics not available:''], False))"

text \<open>The \<open>try\<close> block around \<open>navigator.vibrate(patternArray)\<close> with its \<open>catch\<close>.\<close>

definition vibrationBranch :: "platform \<Rightarrow> number list \<Rightarrow> effect list \<times> bool" where
  "vibrationBranch env patternArray =
     (if vibrateThrows env then ([Warn ''Vibration API failed:''], False)
      else ([Vibrate patternArray], True))"

text \<open>\<open>triggerHaptic\<close>, first version: the effects in order, and how the promise settles.\<close>

definition triggerHaptic :: "platform \<Rightarrow> pattern_arg \<Rightarrow> effect list \<times> outcome" where
  "triggerHaptic env pattern =
     (let (patternArray, patternNumber) = selectPattern pattern;
          (es1, returned1) =
            (if isCapacitor env then capacitorBranch env patternArray patternNumber
             else ([], False))
      in if returned1 then (es1, Resolved)
         else
           (let (es2, returned2) =
                  (if isVibrationAPISupported env then vibrationBranch env patternArray
                   else ([], False))
            in if returned2 then (es1 @ es2, Resolved)
               else if isIOS env \<and> \<not> isCapacitor env then
                 (es1 @ es2 @
                    [Info ''iOS Safari: Haptic feedback requires user interaction or Capacitor wrapper''],
                  Resolved)
               else
                 (es1 @ es2 @ [Warn ''No haptic/vibration support available on this device''],
                  Resolved)))"

text \<open>
  The second version of \<open>triggerHaptic\<close>. Its Capacitor branch treats the pattern number 5
  apart: fifty heavy impacts, 100 ms apart.
\<close>

definition capacitorBranch2 :: "platform \<Rightarrow> number list \<Rightarrow> number \<Rightarrow> effect list \<times> bool" where
  "capacitorBranch2 env patternArray patternNumber =
     (if importResolves env then
        (if patternNumber = Num 5 then
           (let (es, finished) = impactLoop (impactResolves env) Heavy 100 50 0
            in if finished then (es, True)
               else (es @ [Warn ''Capacitor Haptics not available:''], False))
         else
           (let hapticType = patternToHapticType patternNumber;
                style = (if hapticType = light then Light
                         else if hapticType = heavy then Heavy
                         else Medium);
                count = getVibrationCount patternArray;
                (es, finished) = impactLoop (impactResolves env) style 150 count 0
            in if finished then (es, True)
               else (es @ [Warn ''Capacitor Haptics not available:''], False)))
      else ([Warn ''Capacitor Haptics not available:''], False))"

text \<open>
  The \<open>try\<close> block around \<open>navigator.vibrate(patternArray)\<close> of the second version: it
  returns from the function unless the call threw or, on iOS, answered \<open>false\<close>. The
  browser answers every call of \<open>navigator.vibrate\<close> alike (\<open>vibrateThrows\<close>,
  \<open>vibrateResult\<close>).
\<close>

definition vibrationBranch2 :: "platform \<Rightarrow> number list \<Rightarrow> effect list \<times> bool" where
  "vibrationBranch2 env patternArray =
     (if vibrateThrows env then ([Warn ''Vibration API error:''], False)
      else if \<not> vibrateResult env \<and> isIOS env then
        ([Vibrate patternArray, Log ''iOS: Vibration blocked - no active user interaction context''],
         False)
      else ([Vibrate patternArray, Log ''Vibration triggered:''], True))"

text \<open>The last attempt of the second version on iOS outside Capacitor, with its \<open>catch\<close>.\<close>

definition iosBranch2 :: "platform \<Rightarrow> number list \<Rightarrow> effect list" where
  "iosBranch2 env patternArray =
     (if isVibrationAPISupported env then
        (if vibrateThrows env then
           [Warn ''iOS: Vibration API threw error (expected when no user interaction):'']
         else
           [Vibrate patternArray, Log ''iOS: Vibration API called''] @
           (if \<not> vibrateResult env then
              [Vibrate [Num 100], Log ''iOS: Attempted simple vibration pattern'']
            else []))
      else []) @
     [Warn ''iOS WebKit Limitation: Chrome and Safari on iOS block programmatic vibration.'']"

text \<open>
  \<open>triggerHaptic\<close>, second version: the effects in order, how the promise settles, and the
  module variable \<open>userHasInteracted\<close> after the call.
\<close>

definition triggerHaptic2 :: "platform \<Rightarrow> bool \<Rightarrow> pattern_arg \<Rightarrow> effect list \<times> outcome \<times> bool" where
  "triggerHaptic2 env userHasInteracted pattern =
     (let (patternArray, patternNumber) = selectPattern2 pattern;
          (es1, returned1) =
            (if isCapacitor env then capacitorBranch2 env patternArray patternNumber
             else ([], False))
      in if returned1 then (es1, Resolved, userHasInteracted)
         else
           (let (es2, returned2) =
                  (if isVibrationAPISupported env then vibrationBranch2 env patternArray
                   else ([], False))
            in if returned2 then (es1 @ es2, Resolved, userHasInteracted \<or> isIOS env)
               else
                 (es1 @ es2 @
                    (if isIOS env \<and> \<not> isCapacitor env then iosBranch2 env patternArray else []) @
                    [Warn ''No haptic/vibration support available on this device''],
                  Resolved, userHasInteracted)))"

text \<open>What reaches the device: the impacts, the pauses between them and the vibrations.\<close>

fun haptic :: "effect \<Rightarrow> bool" where
  "haptic (Impact style) = True"
| "haptic (Sleep ms) = True"
| "haptic (Vibrate pattern) = True"
| "haptic (Warn text) = False"
| "haptic (Info text) = False"
| "haptic (Log text) = False"

text \<open>
  The array the README describes for a button: \<open>n\<close> pulses of 200 ms separated by pauses
  of 100 ms.
\<close>

definition pulses :: "nat \<Rightarrow> number list" where
  "pulses n = Num 200 # concat (replicate (n - 1) [Num 100, Num 200])"

section \<open>The join form: frontend/src/components/SessionJoin.tsx\<close>




section \<open>The connection hook: hooks/useWebSocket.ts\<close>

definition maxReconnectAttempts :: nat where
  "maxReconnectAttempts = 5"

definition baseReconnectDelay :: nat where
  "baseReconnectDelay = 1000"

text \<open>
  The state of the hook: its three React states, the counter \<open>reconnectAttemptsRef\<close>, the
  pending timer of \<open>reconnectTimeoutRef\<close> (its delay in milliseconds; \<open>None\<close> once it has
  fired or was cleared), and the targets of the sockets constructed so far, oldest first.
\<close>

record ws_state =
  connectionStatus :: ConnectionStatus
  lastMessage :: "WebSocketMessage option"
  error_text :: "string option"
  reconnectAttempts :: nat
  reconnectTimeout :: "nat option"
  sockets :: "string list"

text \<open>
  \<open>connect\<close>; the first argument says whether \<open>new WebSocket(url)\<close> throws, which the
  \<open>catch\<close> of the function turns into an error state.
\<close>

definition connect :: "bool \<Rightarrow> string option \<Rightarrow> ws_state \<Rightarrow> ws_state" where
  "connect throws url st =
     (case url of
        None \<Rightarrow> st
      | Some u \<Rightarrow>
          if u = [] then st
          else
            (let st1 = st\<lparr>connectionStatus := connecting, error_text := None\<rparr>
             in if throws then
                  st1\<lparr>error_text := Some ''Failed to create WebSocket connection'',
                      connectionStatus := error_status\<rparr>
                else st1\<lparr>sockets := sockets st1 @ [u]\<rparr>))"

definition onopen :: "ws_state \<Rightarrow> ws_state" where
  "onopen st = st\<lparr>connectionStatus := connected, reconnectAttempts := 0, reconnectTimeout := None\<rparr>"

text \<open>\<open>ws.onmessage\<close>; the argument is the parsed message, \<open>None\<close> when \<open>JSON.parse\<close> throws.\<close>

definition onmessage :: "WebSocketMessage option \<Rightarrow> ws_state \<Rightarrow> ws_state" where
  "onmessage parsed st =
     (case parsed of
        Some data \<Rightarrow> st\<lparr>lastMessage := Some data\<rparr>
      | None \<Rightarrow> st\<lparr>error_text := Some ''Failed to parse message''\<rparr>)"

definition onerror :: "ws_state \<Rightarrow> ws_state" where
  "onerror st = st\<lparr>error_text := Some ''WebSocket connection error'', connectionStatus := error_status\<rparr>"

text \<open>\<open>ws.onclose\<close>, in the closure of \<open>connect\<close> for the target \<open>url\<close>.\<close>

definition onclose :: "string option \<Rightarrow> ws_state \<Rightarrow> ws_state" where
  "onclose url st =
     (let st1 = st\<lparr>connectionStatus := disconnected\<rparr>
      in if reconnectAttempts st1 < maxReconnectAttempts \<and> truthy url then
           (let delay = baseReconnectDelay * 2 ^ reconnectAttempts st1
            in st1\<lparr>reconnectAttempts := reconnectAttempts st1 + 1,
                   reconnectTimeout := Some delay\<rparr>)
         else if reconnectAttempts st1 \<ge> maxReconnectAttempts then
           st1\<lparr>error_text := Some ''Failed to reconnect after multiple attempts'',
               connectionStatus := error_status\<rparr>
         else st1)"

text \<open>The pending timer fires and runs its callback \<open>connect()\<close>.\<close>

definition timerFires :: "string option \<Rightarrow> ws_state \<Rightarrow> ws_state" where
  "timerFires url st =
     (case reconnectTimeout st of
        None \<Rightarrow> st
      | Some delay \<Rightarrow> connect False url (st\<lparr>reconnectTimeout := None\<rparr>))"

text \<open>
  The connection drops and no retry ever opens: \<open>k\<close> rounds of a closure followed by the
  retry its timer starts. \<open>delays\<close> lists the delay each of these closures scheduled.
\<close>

fun closures :: "string option \<Rightarrow> nat \<Rightarrow> ws_state \<Rightarrow> ws_state" where
  "closures url 0 st = st"
| "closures url (Suc k) st = timerFires url (onclose url (closures url k st))"

fun delays :: "string option \<Rightarrow> nat \<Rightarrow> ws_state \<Rightarrow> nat option list" where
  "delays url 0 st = []"
| "delays url (Suc k) st =
     delays url k st @ [reconnectTimeout (onclose url (closures url k st))]"

section \<open>The application component: the two versions of App.tsx\<close>

datatype View = view_landing | view_create | view_join | view_session

definition SESSION_CODE_KEY :: string where
  "SESSION_CODE_KEY = ''buzz_session_code''"

definition SESSION_TYPE_KEY :: string where
  "SESSION_TYPE_KEY = ''buzz_session_type''"

text \<open>
  The state of frontend/src/App.tsx, with the texts passed to \<open>alert\<close> so far; the later
  version adds the user count and uses \<open>localStorage\<close>.
\<close>

record App_tsx_state =
  view :: View
  sessionCode :: string
  partnerConnected :: bool
  wsUrl :: "string option"
  alerts :: "string list"

record App_state = App_tsx_state +
  userCount :: int
  localStorage :: "string \<rightharpoonup> string"

text \<open>The effect on \<open>lastMessage\<close> of frontend/src/App.tsx.\<close>

definition App_tsx_onMessage :: "WebSocketMessage \<Rightarrow> App_tsx_state \<Rightarrow> App_tsx_state" where
  "App_tsx_onMessage m st =
     (case msg_type m of
        session_created \<Rightarrow>
          (case msg_session_code m of
             Some c \<Rightarrow> if c \<noteq> [] then st\<lparr>sessionCode := c, view := view_session\<rparr> else st
           | None \<Rightarrow> st)
      | session_joined \<Rightarrow>
          (case msg_session_code m of
             Some c \<Rightarrow> if c \<noteq> [] then st\<lparr>sessionCode := c, view := view_session\<rparr> else st
           | None \<Rightarrow> st)
      | partner_connected \<Rightarrow> st\<lparr>partnerConnected := True\<rparr>
      | partner_disconnected \<Rightarrow> st\<lparr>partnerConnected := False\<rparr>
      | error \<Rightarrow>
          if includes_str (msg_message m) ''Session is full'' then
            st\<lparr>alerts := alerts st @ [''Session is full. Maximum 2 users allowed.''],
               view := view_landing, wsUrl := None\<rparr>
          else if includes_str (msg_message m) ''Session not found'' then
            st\<lparr>alerts := alerts st @ [''Session not found. Please check the session code.''],
               view := view_join\<rparr>
          else st
      | create_session \<Rightarrow> st
      | join_session \<Rightarrow> st
      | vibrate \<Rightarrow> st)"

text \<open>The effect on \<open>lastMessage\<close> of the later version of the component.\<close>

definition App_onMessage :: "WebSocketMessage \<Rightarrow> App_state \<Rightarrow> App_state" where
  "App_onMessage m st =
     (case msg_type m of
        session_created \<Rightarrow>
          (case msg_session_code m of
             Some c \<Rightarrow>
               if c \<noteq> [] then
                 st\<lparr>sessionCode := c, userCount := 1, partnerConnected := False,
                    localStorage := (localStorage st)(SESSION_TYPE_KEY \<mapsto> ''created''),
                    view := view_session\<rparr>
               else st
           | None \<Rightarrow> st)
      | session_joined \<Rightarrow>
          (case msg_session_code m of
             Some c \<Rightarrow>
               if c \<noteq> [] then
                 st\<lparr>sessionCode := c,
                    localStorage := (localStorage st)(SESSION_TYPE_KEY \<mapsto> ''joined''),
                    view := view_session\<rparr>
               else st
           | None \<Rightarrow> st)
      | partner_connected \<Rightarrow>
          (let st1 = st\<lparr>partnerConnected := True\<rparr>
           in case msg_user_count m of
                Some n \<Rightarrow> st1\<lparr>userCount := n\<rparr>
              | None \<Rightarrow> st1\<lparr>userCount := min (userCount st1 + 1) 5\<rparr>)
      | partner_disconnected \<Rightarrow>
          (case msg_user_count m of
             Some n \<Rightarrow> st\<lparr>userCount := n, partnerConnected := (n > 1)\<rparr>
           | None \<Rightarrow>
               (let newCount = max (userCount st - 1) 1
                in st\<lparr>partnerConnected := (newCount > 1), userCount := newCount\<rparr>))
      | error \<Rightarrow>
          if includes_str (msg_message m) ''Session is full'' then
            st\<lparr>alerts := alerts st @ [''Session is full. Maximum 5 users allowed.''],
               view := view_landing, wsUrl := None,
               localStorage := (localStorage st)(SESSION_CODE_KEY := None, SESSION_TYPE_KEY := None)\<rparr>
          else if includes_str (msg_message m) ''Session not found'' then
            st\<lparr>alerts := alerts st @
                 [''Session not found. The session may have expired. Please create or join a new session.''],
               view := view_landing, wsUrl := None,
               localStorage := (localStorage st)(SESSION_CODE_KEY := None, SESSION_TYPE_KEY := None)\<rparr>
          else st
      | create_session \<Rightarrow> st
      | join_session \<Rightarrow> st
      | vibrate \<Rightarrow> st)"





section \<open>The relay: code generator, registry, sessions and reaper\<close>

text \<open>
  The relay (the backend's session manager and its WebSocket endpoint) is not among the
  source files; only its clients are. Its operations are modelled from sections 3 and 4 of
  the specification. Time is counted in seconds. The operations on one session run one
  after the other (the single-writer discipline of section 4.3); each is a sequence of
  atomic steps, and a step is given as the session it leaves and the messages it sends.
\<close>

text \<open>
  Modelled from the spec: the identity of a member of section 3, an opaque handle of one
  connection, and the timestamps, here in seconds.
\<close>

type_synonym identity = nat

type_synonym timestamp = nat

text \<open>Modelled from the spec: the Member of section 3 (the relay's data model is missing).\<close>

record Member =
  identity :: identity
  joined_at :: timestamp

text \<open>Modelled from the spec: the Session of section 3 (the relay's data model is missing).\<close>

record Session =
  code :: string
  members :: "Member list"
  last_activity :: timestamp

text \<open>Modelled from the spec: the error taxonomy of section 7 (the relay's errors are missing).\<close>

datatype relay_error = SessionNotFound | SessionFull | InvalidCode | InvalidPattern

text \<open>Modelled from the spec: the session capacity of section 6, fixed at 5.\<close>

definition capacity :: nat where
  "capacity = 5"

text \<open>Modelled from the spec: the idle-session timeout of section 6, one hour.\<close>

definition idle_timeout :: nat where
  "idle_timeout = 3600"

text \<open>Modelled from the spec: the reaper's sweep interval of section 6, five minutes.\<close>

definition sweep_interval :: nat where
  "sweep_interval = 300"

text \<open>
  Modelled from the spec: the registry of section 2, a mapping from code to session, and a
  message sent to one connection.
\<close>

type_synonym registry = "string \<rightharpoonup> Session"

type_synonym delivery = "identity \<times> WebSocketMessage"

text \<open>
  Modelled from the spec: the registry's key discipline of section 3, where the code is
  the sole lookup key of its session; the relay's registry is missing.
\<close>

definition keyed :: "registry \<Rightarrow> bool" where
  "keyed reg = (\<forall>c s. reg c = Some s \<longrightarrow> code s = c)"

text \<open>Modelled from the spec: the outbound message \<open>partner_connected{user_count}\<close> of section 3.\<close>

definition partner_connected_msg :: "nat \<Rightarrow> WebSocketMessage" where
  "partner_connected_msg n = StatusMessage type_partner_connected None None (Some (int n))"

text \<open>Modelled from the spec: the outbound message \<open>partner_disconnected{user_count}\<close> of section 3.\<close>

definition partner_disconnected_msg :: "nat \<Rightarrow> WebSocketMessage" where
  "partner_disconnected_msg n = StatusMessage type_partner_disconnected None None (Some (int n))"

text \<open>Modelled from the spec: the outbound message \<open>session_created{code}\<close> of section 3.\<close>

definition session_created_msg :: "string \<Rightarrow> WebSocketMessage" where
  "session_created_msg c = StatusMessage type_session_created (Some c) None None"

text \<open>Modelled from the spec: the outbound message \<open>session_joined{code}\<close> of section 3.\<close>

definition session_joined_msg :: "string \<Rightarrow> WebSocketMessage" where
  "session_joined_msg c = StatusMessage type_session_joined (Some c) None None"

text \<open>Modelled from the spec: the outbound message \<open>error{message}\<close> of section 3.\<close>

definition error_msg :: "string \<Rightarrow> WebSocketMessage" where
  "error_msg text = StatusMessage type_error None (Some text) None"

text \<open>
  Modelled from the spec: the six-digit decimal string of section 4.1, leading zeros
  allowed; the relay's generator is missing. The argument is a random draw; its last six
  decimal digits are written out.
\<close>

definition six_digits :: "nat \<Rightarrow> string" where
  "six_digits n = map (\<lambda>k. ''0123456789'' ! (n div 10 ^ k mod 10)) [5, 4, 3, 2, 1, 0]"

text \<open>
  Modelled from the spec: \<open>generate\<close> of section 4.1, which re-samples until the code
  collides with no code present in the registry; the relay's generator is missing. The
  random source is the sequence \<open>draw\<close> of its draws, read from position \<open>i\<close>; the result is
  the code and the position after it. A source whose draws all collide keeps the loop
  running: the value \<open>None\<close>.
\<close>

partial_function (option) generate :: "(nat \<Rightarrow> nat) \<Rightarrow> registry \<Rightarrow> nat \<Rightarrow> (string \<times> nat) option" where
  "generate draw reg i =
     (let c = six_digits (draw i)
      in if reg c \<noteq> None then generate draw reg (i + 1) else Some (c, i + 1))"

text \<open>
  Modelled from the spec: \<open>Registry.create\<close> of section 4.2, which generates a fresh code
  and inserts an empty Session keyed by it; the relay's registry is missing.
\<close>

definition create ::
  "(nat \<Rightarrow> nat) \<Rightarrow> nat \<Rightarrow> timestamp \<Rightarrow> registry \<Rightarrow> (registry \<times> Session \<times> nat) option" where
  "create draw i now reg =
     (case generate draw reg i of
        None \<Rightarrow> None
      | Some (c, i') \<Rightarrow>
          (let s = \<lparr>code = c, members = [], last_activity = now\<rparr>
           in Some (reg(c \<mapsto> s), s, i')))"

text \<open>
  Modelled from the spec: the condition of sections 3 and 4.4 under which a session is
  reclaimed: it has no member and its idle duration \<open>now - last_activity\<close> has reached the
  timeout; the relay's reaper is missing.
\<close>

definition reclaimable :: "timestamp \<Rightarrow> Session \<Rightarrow> bool" where
  "reclaimable now s = (members s = [] \<and> now - last_activity s \<ge> idle_timeout)"

text \<open>
  Modelled from the spec: \<open>Registry.lookup\<close> of section 4.2, which fails with
  SessionNotFound on an absent or reclaimed code (section 7); the relay's registry is
  missing. By sections 3 and 8 a session without members is reclaimed if and only if its
  idle duration has reached the timeout, while the reaper of section 4.4 deletes such
  sessions only every five minutes: a session that is reclaimable at the time of the
  lookup counts as reclaimed, whether or not a sweep has deleted it yet.
\<close>

definition lookup :: "timestamp \<Rightarrow> registry \<Rightarrow> string \<Rightarrow> relay_error + Session" where
  "lookup now reg c =
     (case reg c of
        None \<Rightarrow> Inl SessionNotFound
      | Some s \<Rightarrow> if reclaimable now s then Inl SessionNotFound else Inr s)"

text \<open>Modelled from the spec: \<open>Registry.delete\<close> of section 4.2; the relay's registry is missing.\<close>

definition delete :: "registry \<Rightarrow> string \<Rightarrow> registry" where
  "delete reg c = reg(c := None)"

text \<open>
  Modelled from the spec: \<open>Session.join\<close> of section 4.3, which fails with SessionFull at
  five members, and otherwise appends the member, updates \<open>last_activity\<close> and sends
  \<open>partner_connected\<close> with the new member count to every other member; the relay's
  session is missing.
\<close>

definition join :: "identity \<Rightarrow> timestamp \<Rightarrow> Session \<Rightarrow> relay_error + (Session \<times> delivery list)" where
  "join ident now s =
     (if length (members s) = capacity then Inl SessionFull
      else
        (let s' = s\<lparr>members := members s @ [\<lparr>identity = ident, joined_at = now\<rparr>],
                    last_activity := now\<rparr>
         in Inr (s', map (\<lambda>m. (identity m, partner_connected_msg (length (members s'))))
                       (filter (\<lambda>m. identity m \<noteq> ident) (members s')))))"

text \<open>
  Modelled from the spec: \<open>Session.leave\<close> of section 4.3, a no-op for an identity that is
  not a member, and otherwise the removal of the member, the update of \<open>last_activity\<close>
  and \<open>partner_disconnected\<close> with the new member count to the remaining members; the
  relay's session is missing.
\<close>

definition leave :: "identity \<Rightarrow> timestamp \<Rightarrow> Session \<Rightarrow> Session \<times> delivery list" where
  "leave ident now s =
     (if ident \<in> set (map identity (members s)) then
        (let s' = s\<lparr>members := filter (\<lambda>m. identity m \<noteq> ident) (members s),
                    last_activity := now\<rparr>
         in (s', map (\<lambda>m. (identity m, partner_disconnected_msg (length (members s'))))
                   (members s')))
      else (s, []))"

text \<open>
  Modelled from the spec: an atomic step of an operation on a session, given as the
  session right after the step and the messages the step sends; the session after a
  sequence of steps that starts from \<open>s\<close>, and everything the steps send, in order.
\<close>

type_synonym step = "Session \<times> delivery list"

definition after :: "Session \<Rightarrow> step list \<Rightarrow> Session" where
  "after s steps = (if steps = [] then s else fst (last steps))"

definition sent :: "step list \<Rightarrow> delivery list" where
  "sent steps = concat (map snd steps)"

text \<open>
  Modelled from the spec: the fan-out of \<open>Session.broadcast\<close> of section 4.3 over the
  members \<open>ms\<close>, in join order; the relay's session is missing. The sender is passed over.
  The connection of a member is alive or dead (\<open>alive\<close>): the delivery to a live one is a
  step that sends it the payload; the delivery to a dead one fails and is the implicit
  \<open>leave\<close> of that member, processed before the fan-out continues with the rest, on the
  session as that \<open>leave\<close> left it. The implicit leave is the \<open>leave\<close> above: the member is
  removed and \<open>partner_disconnected\<close> with the new member count is sent to the remaining
  members.
\<close>

fun fan_out ::
  "(identity \<Rightarrow> bool) \<Rightarrow> identity \<Rightarrow> WebSocketMessage \<Rightarrow> timestamp \<Rightarrow> Session \<Rightarrow> Member list
     \<Rightarrow> step list" where
  "fan_out alive sender payload now s [] = []"
| "fan_out alive sender payload now s (m # ms) =
     (if identity m = sender then fan_out alive sender payload now s ms
      else if alive (identity m) then
        (s, [(identity m, payload)]) # fan_out alive sender payload now s ms
      else
        leave (identity m) now s
          # fan_out alive sender payload now (fst (leave (identity m) now s)) ms)"

text \<open>
  Modelled from the spec: \<open>Session.broadcast\<close> of section 4.3, which updates
  \<open>last_activity\<close> and delivers the payload to every member except the sender, a failed
  delivery being the implicit leave of its member; the relay's session is missing. The
  result is the sequence of its steps.
\<close>

definition broadcast ::
  "(identity \<Rightarrow> bool) \<Rightarrow> identity \<Rightarrow> WebSocketMessage \<Rightarrow> timestamp \<Rightarrow> Session \<Rightarrow> step list" where
  "broadcast alive sender payload now s =
     (s\<lparr>last_activity := now\<rparr>, [])
       # fan_out alive sender payload now (s\<lparr>last_activity := now\<rparr>) (members s)"

text \<open>
  Modelled from the spec: one sweep of the reaper of section 4.4, which deletes every
  reclaimable session from the registry; the relay's reaper is missing.
\<close>

definition reap :: "timestamp \<Rightarrow> registry \<Rightarrow> registry" where
  "reap now reg =
     (\<lambda>c. case reg c of
             None \<Rightarrow> None
           | Some s \<Rightarrow> if reclaimable now s then None else Some s)"

text \<open>
  Modelled from the spec: the reaper's fixed period of section 4.4; the relay's scheduler
  is missing. The sweeps due at \<open>due\<close>, \<open>due + sweep_interval\<close>, ... up to the time \<open>until\<close>
  are run in order.
\<close>

function sweeps :: "timestamp \<Rightarrow> timestamp \<Rightarrow> registry \<Rightarrow> registry" where
  "sweeps due until reg =
     (if due \<le> until then sweeps (due + sweep_interval) until (reap due reg) else reg)"
  by pat_completeness auto
termination
  by (relation "measure (\<lambda>(due, until, reg). Suc until - due)") (auto simp: sweep_interval_def)

declare sweeps.simps [simp del]

text \<open>
  Modelled from the spec: the connection handler of section 4.5 for a target that is not
  \<open>new\<close>: the format check, then \<open>Registry.lookup\<close> and \<open>Session.join\<close>; the relay's endpoint
  is missing. On success the joiner is sent \<open>session_joined\<close> and the registry holds the
  joined session.
\<close>

definition join_target ::
  "registry \<Rightarrow> string \<Rightarrow> identity \<Rightarrow> timestamp \<Rightarrow> relay_error + (registry \<times> delivery list)" where
  "join_target reg target ident now =
     (if \<not> test_six_digits target then Inl InvalidCode
      else
        (case lookup now reg target of
           Inl e \<Rightarrow> Inl e
         | Inr s \<Rightarrow>
             (case join ident now s of
                Inl e \<Rightarrow> Inl e
              | Inr (s', out) \<Rightarrow>
                  Inr (reg(target \<mapsto> s'), (ident, session_joined_msg target) # out))))"

text \<open>
  Modelled from the spec: the error message the handler of section 4.5 sends for a failed
  join before it closes the connection; the relay's endpoint is missing. The specification
  fixes the text for SessionNotFound and SessionFull only (\<open>None\<close>: no text is fixed).
\<close>

fun error_reply :: "relay_error \<Rightarrow> WebSocketMessage option" where
  "error_reply SessionNotFound = Some (error_msg ''Session not found'')"
| "error_reply SessionFull = Some (error_msg ''Session is full'')"
| "error_reply InvalidCode = None"
| "error_reply InvalidPattern = None"

text \<open>
  Modelled from the spec: the connection handler of section 4.5 for the target \<open>new\<close>,
  which calls \<open>Registry.create\<close>, makes the connection the first member of the new session
  (the state JOINED) and sends it \<open>session_created\<close>; the relay's endpoint is missing. The
  result is \<open>None\<close> while the generator re-samples, and otherwise the registry, the
  position in the random source and the deliveries.
\<close>

definition open_new ::
  "(nat \<Rightarrow> nat) \<Rightarrow> nat \<Rightarrow> identity \<Rightarrow> timestamp \<Rightarrow> registry
     \<Rightarrow> (relay_error + registry \<times> nat \<times> delivery list) option" where
  "open_new draw i ident now reg =
     (case create draw i now reg of
        None \<Rightarrow> None
      | Some (reg', s, i') \<Rightarrow>
          (case join ident now s of
             Inl e \<Rightarrow> Some (Inl e)
           | Inr (s', out) \<Rightarrow>
               Some (Inr (reg'(code s \<mapsto> s'), i', (ident, session_created_msg (code s)) # out))))"

text \<open>
  Modelled from the spec: the handler of section 4.5 on the closure of a joined
  connection, which calls \<open>Session.leave\<close> and leaves an emptied session in the registry;
  the relay's endpoint is missing.
\<close>

definition close_connection ::
  "registry \<Rightarrow> string \<Rightarrow> identity \<Rightarrow> timestamp \<Rightarrow> registry \<times> delivery list" where
  "close_connection reg c ident now =
     (case reg c of
        None \<Rightarrow> (reg, [])
      | Some s \<Rightarrow> (let (s', out) = leave ident now s in (reg(c \<mapsto> s'), out)))"

text \<open>
  Modelled from the spec: the handler of section 4.5 for an inbound \<open>vibrate{pattern}\<close> of
  a joined connection: a pattern outside 1 to 4 is rejected with InvalidPattern and
  reaches no member, and any other is forwarded to \<open>Session.broadcast\<close>; the relay's
  endpoint is missing.
\<close>

definition on_vibrate ::
  "(identity \<Rightarrow> bool) \<Rightarrow> identity \<Rightarrow> number \<Rightarrow> timestamp \<Rightarrow> Session
     \<Rightarrow> relay_error + step list" where
  "on_vibrate alive sender pattern now s =
     (if pattern \<in> {Num 1, Num 2, Num 3, Num 4}
      then Inr (broadcast alive sender (VibrateMessage pattern) now s)
      else Inl InvalidPattern)"

text \<open>
  Modelled from the spec: the events that reach one session under the single-writer
  discipline of section 4.3: a connection joins, a connection closes (\<open>leave\<close>), a joined
  connection sends \<open>vibrate\<close>; the relay's session is missing. Each event comes with its
  time and with the connections that are alive at that time.
\<close>

datatype session_op = Join identity | Leave identity | Relay identity number

type_synonym event = "session_op \<times> timestamp \<times> (identity \<Rightarrow> bool)"

text \<open>
  Modelled from the spec: the steps of one event on the session; the relay's session is
  missing. A join or a \<open>vibrate\<close> that is rejected is no step: it leaves the session as it
  was and sends nothing to its members (section 7: one member's error never disrupts
  another's).
\<close>

fun apply_op :: "Session \<Rightarrow> event \<Rightarrow> step list" where
  "apply_op s (Join ident, now, alive) =
     (case join ident now s of Inl e \<Rightarrow> [] | Inr r \<Rightarrow> [r])"
| "apply_op s (Leave ident, now, alive) = [leave ident now s]"
| "apply_op s (Relay sender pattern, now, alive) =
     (case on_vibrate alive sender pattern now s of Inl e \<Rightarrow> [] | Inr steps \<Rightarrow> steps)"

text \<open>
  Modelled from the spec: the steps of a sequence of such events, each event on the
  session as the one before left it; the relay's session is missing.
\<close>

fun run_ops :: "Session \<Rightarrow> event list \<Rightarrow> step list" where
  "run_ops s [] = []"
| "run_ops s (x # xs) = apply_op s x @ run_ops (after s (apply_op s x)) xs"

section \<open>Example inputs\<close>

text \<open>An Android browser: no Capacitor, the Vibration API present and working.\<close>

definition android :: platform where
  "android = \<lparr>isCapacitor = False, importResolves = False, impactResolves = (\<lambda>i. True),
              isVibrationAPISupported = True, vibrateThrows = False, vibrateResult = True,
              isIOS = False\<rparr>"

text \<open>The hook right after its socket to a session has opened.\<close>

definition connected0 :: ws_state where
  "connected0 = onopen \<lparr>connectionStatus = connecting, lastMessage = None, error_text = None,
     reconnectAttempts = 0, reconnectTimeout = None, sockets = [''ws://localhost:8000/ws/483920'']\<rparr>"


text \<open>
  A device on which every haptic call fails: Capacitor is present but the second impact
  rejects, and \<open>navigator.vibrate\<close> throws.
\<close>

definition failing_device :: platform where
  "failing_device = \<lparr>isCapacitor = True, importResolves = True, impactResolves = (\<lambda>i. i < 1),
              isVibrationAPISupported = True, vibrateThrows = True, vibrateResult = False,
              isIOS = False\<rparr>"

text \<open>A random source whose first draw is 483920 and whose later draws are 17.\<close>

definition draw0 :: "nat \<Rightarrow> nat" where
  "draw0 i = (if i = 0 then 483920 else 17)"

text \<open>The session 483920 left empty at time 0, and a registry that holds only it.\<close>

definition session0 :: Session where
  "session0 = \<lparr>code = ''483920'', members = [], last_activity = 0\<rparr>"

definition registry0 :: registry where
  "registry0 = [''483920'' \<mapsto> session0]"

text \<open>The session 483920 with the three members 1, 2 and 3.\<close>

definition session3 :: Session where
  "session3 = \<lparr>code = ''483920'',
     members = [\<lparr>identity = 1, joined_at = 10\<rparr>, \<lparr>identity = 2, joined_at = 20\<rparr>,
                \<lparr>identity = 3, joined_at = 30\<rparr>],
     last_activity = 30\<rparr>"

text \<open>
  The registry right after the first connection created the session 483920, and that
  session with \<open>n\<close> members, the connections 1 to \<open>n\<close>, joined at the times 0 to \<open>n - 1\<close>.
\<close>

definition registry1 :: registry where
  "registry1 = [''483920'' \<mapsto>
     \<lparr>code = ''483920'', members = [\<lparr>identity = 1, joined_at = 0\<rparr>], last_activity = 0\<rparr>]"

definition session_of :: "nat \<Rightarrow> Session" where
  "session_of n = \<lparr>code = ''483920'',
     members = map (\<lambda>k. \<lparr>identity = Suc k, joined_at = k\<rparr>) [0..<n],
     last_activity = n - 1\<rparr>"

section \<open>Properties of the client\<close>

subsection \<open>Haptic patterns\<close>

lemma getVibrationCount_examples:
  "getVibrationCount [Num 200] = 1"
  "getVibrationCount [Num 200, Num 100, Num 200] = 2"
  "getVibrationCount [Num 200, Num 100, Num 200, Num 100, Num 200] = 3"
  "getVibrationCount [Num 200, Num 100, Num 200, Num 100, Num 200, Num 100, Num 200] = 4"
  by (simp_all add: getVibrationCount_def upt_rec)

lemma pulses_values:
  "pulses 1 = [Num 200]"
  "pulses 2 = [Num 200, Num 100, Num 200]"
  "pulses 3 = [Num 200, Num 100, Num 200, Num 100, Num 200]"
  "pulses 4 = [Num 200, Num 100, Num 200, Num 100, Num 200, Num 100, Num 200]"
  by (simp_all add: pulses_def numeral_eq_Suc)

text \<open>
  Claim C9. For every pattern in 1, 2, 3, 4 the two versions of \<open>triggerHaptic\<close> compute the
  same vibration array: 1 gives [200], 2 gives [200, 100, 200], 3 gives
  [200, 100, 200, 100, 200] and 4 gives [200, 100, 200, 100, 200, 100, 200].
\<close>

theorem triggerHaptic_versions_same_array:
  assumes "n \<in> {1, 2, 3, 4}"
  shows "fst (selectPattern (Single (Num (real n)))) = fst (selectPattern2 (Single (Num (real n))))
       \<and> fst (selectPattern (Single (Num (real n)))) =
           [[Num 200],
            [Num 200, Num 100, Num 200],
            [Num 200, Num 100, Num 200, Num 100, Num 200],
            [Num 200, Num 100, Num 200, Num 100, Num 200, Num 100, Num 200]] ! (n - 1)"
  using assms by auto

theorem triggerHaptic_versions_same_array_witness:
  "(3::nat) \<in> {1, 2, 3, 4}
   \<and> fst (selectPattern (Single (Num 3))) = fst (selectPattern2 (Single (Num 3)))
   \<and> fst (selectPattern2 (Single (Num 3))) = [Num 200, Num 100, Num 200, Num 100, Num 200]"
  using triggerHaptic_versions_same_array [of 3] by simp

lemma triggerHaptic_resolves: "snd (triggerHaptic env pattern) = Resolved"
  by (simp add: triggerHaptic_def Let_def split: prod.splits)

lemma impactLoop_no_vibrate: "Vibrate a \<notin> set (fst (impactLoop resolves style pause count i))"
proof (induction resolves style pause count i rule: impactLoop.induct)
  case (1 resolves style pause count i)
  show ?case
  proof (cases "i < count \<and> resolves i")
    case True
    then show ?thesis
      using 1 by (subst impactLoop.simps) (auto split: prod.splits)
  next
    case False
    then show ?thesis
      by (subst impactLoop.simps) auto
  qed
qed

lemma capacitorBranch_no_vibrate: "Vibrate a \<notin> set (fst (capacitorBranch env arr k))"
proof (cases "importResolves env")
  case False
  then show ?thesis by (simp add: capacitorBranch_def)
next
  case True
  define style where "style = (if patternToHapticType k = light then Light
                      else if patternToHapticType k = heavy then Heavy else Medium)"
  obtain es fin where L: "impactLoop (impactResolves env) style 150 (getVibrationCount arr) 0 = (es, fin)"
    by (cases "impactLoop (impactResolves env) style 150 (getVibrationCount arr) 0")
  have "Vibrate a \<notin> set es"
    using impactLoop_no_vibrate [of a "impactResolves env" style 150 "getVibrationCount arr" 0] L
    by simp
  then show ?thesis
    using True L by (simp add: capacitorBranch_def Let_def style_def)
qed

lemma triggerHaptic_vibrates_selected:
  assumes "Vibrate a \<in> set (fst (triggerHaptic env pattern))"
  shows "a = fst (selectPattern pattern)"
proof -
  obtain arr k where S: "selectPattern pattern = (arr, k)"
    by (cases "selectPattern pattern")
  obtain es1 r1 where C: "capacitorBranch env arr k = (es1, r1)"
    by (cases "capacitorBranch env arr k")
  have N: "Vibrate a \<notin> set es1"
    using capacitorBranch_no_vibrate [of a env arr k] C by simp
  show ?thesis
    using assms N
    by (simp add: triggerHaptic_def S C vibrationBranch_def Let_def split: if_splits)
qed

text \<open>
  Beyond the arrays: for the patterns 1 to 4 the two versions send the same impacts, pauses
  and vibrations to the device, whatever it answers, unless an iOS browser answers
  \<open>false\<close> to \<open>navigator.vibrate\<close> (the second version then tries again).
\<close>

lemma selectPattern2_agrees:
  "p \<noteq> Single (Num 5) \<Longrightarrow> selectPattern2 p = selectPattern p"
  by (cases p) auto

lemma capacitorBranch2_agrees:
  "k \<noteq> Num 5 \<Longrightarrow> capacitorBranch2 env arr k = capacitorBranch env arr k"
  by (simp add: capacitorBranch2_def capacitorBranch_def)

lemma vibrationBranch2_agrees:
  assumes "vibrateResult env \<or> \<not> isIOS env"
  shows "filter haptic (fst (vibrationBranch2 env arr)) = filter haptic (fst (vibrationBranch env arr))
       \<and> snd (vibrationBranch2 env arr) = snd (vibrationBranch env arr)"
  using assms by (auto simp: vibrationBranch2_def vibrationBranch_def)

lemma iosBranch2_silent:
  assumes "\<not> isVibrationAPISupported env \<or> vibrateThrows env"
  shows "filter haptic (iosBranch2 env arr) = []"
  using assms by (auto simp: iosBranch2_def)

lemma vibrationBranch_returns:
  "snd (vibrationBranch env arr) = (\<not> vibrateThrows env)"
  by (simp add: vibrationBranch_def)

lemma triggerHaptic_versions_same_effects:
  assumes "p \<in> {Num 1, Num 2, Num 3, Num 4}" and "vibrateResult env \<or> \<not> isIOS env"
  shows "filter haptic (fst (triggerHaptic2 env u (Single p)))
       = filter haptic (fst (triggerHaptic env (Single p)))"
proof -
  have n: "p \<noteq> Num 5" using assms(1) by auto
  then have s: "selectPattern2 (Single p) = selectPattern (Single p)"
    by (intro selectPattern2_agrees) simp
  obtain arr k where a: "selectPattern (Single p) = (arr, k)"
    by (cases "selectPattern (Single p)")
  have k: "k = p" using a by simp
  obtain es1 r1 where c: "capacitorBranch env arr k = (es1, r1)"
    by (cases "capacitorBranch env arr k")
  have c2: "capacitorBranch2 env arr k = (es1, r1)"
    using capacitorBranch2_agrees [of k env arr] n k c by simp
  obtain es2 r2 where v: "vibrationBranch env arr = (es2, r2)"
    by (cases "vibrationBranch env arr")
  obtain es2' r2' where v2: "vibrationBranch2 env arr = (es2', r2')"
    by (cases "vibrationBranch2 env arr")
  have e: "filter haptic es2' = filter haptic es2" "r2' = r2"
    using vibrationBranch2_agrees [OF assms(2), of arr] v v2 by simp_all
  have r: "r2 = (\<not> vibrateThrows env)"
    using vibrationBranch_returns [of env arr] v by simp
  have unfold1: "triggerHaptic env (Single p) =
      (if isCapacitor env \<and> r1 then (es1, Resolved)
       else if isVibrationAPISupported env \<and> r2
         then ((if isCapacitor env then es1 else []) @ es2, Resolved)
       else if isIOS env \<and> \<not> isCapacitor env
         then ((if isCapacitor env then es1 else []) @ (if isVibrationAPISupported env then es2 else []) @
            [Info ''iOS Safari: Haptic feedback requires user interaction or Capacitor wrapper''], Resolved)
       else ((if isCapacitor env then es1 else []) @ (if isVibrationAPISupported env then es2 else []) @
            [Warn ''No haptic/vibration support available on this device''], Resolved))"
    by (simp add: triggerHaptic_def a c v Let_def del: selectPattern.simps)
  have unfold2: "triggerHaptic2 env u (Single p) =
      (if isCapacitor env \<and> r1 then (es1, Resolved, u)
       else if isVibrationAPISupported env \<and> r2'
         then ((if isCapacitor env then es1 else []) @ es2', Resolved, u \<or> isIOS env)
       else ((if isCapacitor env then es1 else []) @ (if isVibrationAPISupported env then es2' else []) @
            (if isIOS env \<and> \<not> isCapacitor env then iosBranch2 env arr else []) @
            [Warn ''No haptic/vibration support available on this device''], Resolved, u))"
    by (simp add: triggerHaptic2_def s a c2 v2 Let_def del: selectPattern.simps selectPattern2.simps)
  show ?thesis
  proof (cases "isCapacitor env \<and> r1")
    case True
    then show ?thesis by (simp add: unfold1 unfold2 del: selectPattern.simps selectPattern2.simps)
  next
    case f1: False
    show ?thesis
    proof (cases "isVibrationAPISupported env \<and> r2")
      case True
      then show ?thesis
        using f1 e by (simp add: unfold1 unfold2 del: selectPattern.simps selectPattern2.simps)
    next
      case f2: False
      then have "\<not> isVibrationAPISupported env \<or> vibrateThrows env"
        using r by blast
      then have "filter haptic (iosBranch2 env arr) = []"
        by (rule iosBranch2_silent)
      then show ?thesis
        using f1 f2 e by (simp add: unfold1 unfold2 del: selectPattern.simps selectPattern2.simps)
    qed
  qed
qed

lemma triggerHaptic_failures_caught:
  "triggerHaptic failing_device (Single (Num 3))
     = ([Impact Heavy, Sleep 150, Warn ''Capacitor Haptics not available:'',
         Warn ''Vibration API failed:'',
         Warn ''No haptic/vibration support available on this device''], Resolved)"
proof -
  have "impactLoop (\<lambda>i. i < 1) Heavy 150 3 0 = ([Impact Heavy, Sleep 150], False)"
    by (simp add: impactLoop.simps [of _ _ _ _ 0] impactLoop.simps [of _ _ _ _ "Suc 0"])
  then show ?thesis
    by (simp add: triggerHaptic_def capacitorBranch_def vibrationBranch_def failing_device_def
        patternToHapticType_def getVibrationCount_examples)
qed

text \<open>
  Claim C10. \<open>triggerHaptic\<close> (first version) is total on numbers: whatever the device
  answers, its promise resolves and no exception leaves it; a pattern \<open>n\<close> among 1, 2, 3, 4
  selects \<open>n\<close> pulses of 200 ms separated by pauses of 100 ms, every other number (a
  fraction, \<open>NaN\<close>, an infinity) selects the single pulse [200]; and an array handed to
  \<open>navigator.vibrate\<close> is the selected one.
\<close>

theorem triggerHaptic_total:
  "snd (triggerHaptic env (Single p)) = Resolved
   \<and> (\<forall>n \<in> {1, 2, 3, 4}. p = Num (real n) \<longrightarrow> fst (selectPattern (Single p)) = pulses n)
   \<and> (p \<notin> {Num 1, Num 2, Num 3, Num 4} \<longrightarrow> fst (selectPattern (Single p)) = [Num 200])
   \<and> (\<forall>a. Vibrate a \<in> set (fst (triggerHaptic env (Single p))) \<longrightarrow> a = fst (selectPattern (Single p)))"
proof -
  have "snd (triggerHaptic env (Single p)) = Resolved"
    by (rule triggerHaptic_resolves)
  moreover have "\<forall>n \<in> {1, 2, 3, 4}. p = Num (real n) \<longrightarrow> fst (selectPattern (Single p)) = pulses n"
    using pulses_values by auto
  moreover have "p \<notin> {Num 1, Num 2, Num 3, Num 4} \<longrightarrow> fst (selectPattern (Single p)) = [Num 200]"
    by simp
  moreover have "\<forall>a. Vibrate a \<in> set (fst (triggerHaptic env (Single p))) \<longrightarrow> a = fst (selectPattern (Single p))"
    using triggerHaptic_vibrates_selected by blast
  ultimately show ?thesis by blast
qed

theorem triggerHaptic_total_witness:
  "snd (triggerHaptic android (Single (Num 3))) = Resolved
   \<and> fst (selectPattern (Single (Num 3))) = pulses 3
   \<and> fst (triggerHaptic android (Single (Num 3))) = [Vibrate [Num 200, Num 100, Num 200, Num 100, Num 200]]
   \<and> snd (triggerHaptic android (Single NaN)) = Resolved
   \<and> fst (selectPattern (Single NaN)) = [Num 200]
   \<and> fst (selectPattern (Single (Num 2.5))) = [Num 200]
   \<and> snd (triggerHaptic failing_device (Single (Num 3))) = Resolved"
  using triggerHaptic_total [of android "Num 3"] triggerHaptic_total [of android NaN]
    triggerHaptic_total [of android "Num 2.5"] triggerHaptic_total [of failing_device "Num 3"]
  by (simp add: triggerHaptic_def vibrationBranch_def android_def)

subsection \<open>Reconnection\<close>

lemma onopen_resets: "reconnectAttempts (onopen st) = 0 \<and> reconnectTimeout (onopen st) = None"
  by (simp add: onopen_def)

lemma closures_attempts:
  assumes "reconnectAttempts st = 0" "u \<noteq> []" "k \<le> 5"
  shows "reconnectAttempts (closures (Some u) k st) = k
       \<and> sockets (closures (Some u) k st) = sockets st @ replicate k u"
  using assms(3)
proof (induction k)
  case 0
  then show ?case using assms by simp
next
  case (Suc k)
  then have IH: "reconnectAttempts (closures (Some u) k st) = k"
    "sockets (closures (Some u) k st) = sockets st @ replicate k u" and "k < 5"
    by auto
  then show ?case using assms(2)
    by (simp add: onclose_def timerFires_def connect_def maxReconnectAttempts_def Let_def
        replicate_append_same)
qed

lemma onclose_delay:
  assumes "reconnectAttempts st = 0" "u \<noteq> []" "k < 5"
  shows "reconnectTimeout (onclose (Some u) (closures (Some u) k st)) = Some (1000 * 2 ^ k)"
  using closures_attempts [OF assms(1,2), of k] assms(2,3)
  by (simp add: onclose_def maxReconnectAttempts_def baseReconnectDelay_def Let_def)

lemma closures_gave_up:
  assumes "reconnectAttempts st = 0" "u \<noteq> []" "5 \<le> k"
  shows "reconnectAttempts (closures (Some u) k st) = 5
       \<and> reconnectTimeout (closures (Some u) k st) = None
       \<and> sockets (closures (Some u) k st) = sockets st @ replicate 5 u"
  using assms(3)
proof (induction k rule: dec_induct)
  case base
  have "reconnectTimeout (closures (Some u) 5 st) = None"
    using assms(2) by (simp add: numeral_eq_Suc timerFires_def connect_def split: option.splits)
  then show ?case
    using closures_attempts [OF assms(1,2), of 5] by simp
next
  case (step k)
  then show ?case
    by (simp add: onclose_def timerFires_def maxReconnectAttempts_def Let_def)
qed

text \<open>
  Claim C3. After a closure the hook retries the same target with exponential backoff:
  starting from a counter of 0 (as \<open>onopen\<close> leaves it), the first retry is delayed
  1000 ms, each later delay is twice the one before, each retry opens a socket to the same
  target, five retries are made at most, and the closure after the fifth sets the error
  text and the error status and schedules nothing.
\<close>

theorem reconnect_backoff:
  assumes "reconnectAttempts st = 0" and "u \<noteq> []"
  shows "delays (Some u) 5 st = [Some 1000, Some 2000, Some 4000, Some 8000, Some 16000]
       \<and> (\<forall>k<5. reconnectTimeout (onclose (Some u) (closures (Some u) k st)) = Some (1000 * 2 ^ k)
                \<and> sockets (closures (Some u) (Suc k) st) = sockets (closures (Some u) k st) @ [u])
       \<and> reconnectTimeout (onclose (Some u) (closures (Some u) 5 st)) = None
       \<and> error_text (onclose (Some u) (closures (Some u) 5 st))
           = Some ''Failed to reconnect after multiple attempts''
       \<and> connectionStatus (onclose (Some u) (closures (Some u) 5 st)) = error_status
       \<and> (\<forall>k\<ge>5. sockets (closures (Some u) k st) = sockets st @ replicate 5 u)"
proof -
  note D = onclose_delay [OF assms]
  have "delays (Some u) 5 st = map (\<lambda>k. reconnectTimeout (onclose (Some u) (closures (Some u) k st))) [0, 1, 2, 3, 4]"
    by (simp add: numeral_eq_Suc)
  then have d: "delays (Some u) 5 st = [Some 1000, Some 2000, Some 4000, Some 8000, Some 16000]"
    using D [of 0] D [of 1] D [of 2] D [of 3] D [of 4]
    by simp
  have s: "\<forall>k<5. sockets (closures (Some u) (Suc k) st) = sockets (closures (Some u) k st) @ [u]"
  proof (intro allI impI)
    fix k :: nat
    assume "k < 5"
    then show "sockets (closures (Some u) (Suc k) st) = sockets (closures (Some u) k st) @ [u]"
      using closures_attempts [OF assms, of k] closures_attempts [OF assms, of "Suc k"]
      by (simp add: replicate_append_same del: closures.simps)
  qed
  note G = closures_gave_up [OF assms, of 5]
  have g: "reconnectTimeout (onclose (Some u) (closures (Some u) 5 st)) = None"
    "error_text (onclose (Some u) (closures (Some u) 5 st)) = Some ''Failed to reconnect after multiple attempts''"
    "connectionStatus (onclose (Some u) (closures (Some u) 5 st)) = error_status"
    using G by (simp_all add: onclose_def maxReconnectAttempts_def Let_def)
  have a: "\<forall>k\<ge>5. sockets (closures (Some u) k st) = sockets st @ replicate 5 u"
    using closures_gave_up [OF assms] by blast
  show ?thesis
    using d s g a D by simp
qed

theorem reconnect_backoff_witness:
  "reconnectAttempts connected0 = 0
   \<and> delays (Some ''ws://localhost:8000/ws/483920'') 5 connected0
       = [Some 1000, Some 2000, Some 4000, Some 8000, Some 16000]
   \<and> sockets (closures (Some ''ws://localhost:8000/ws/483920'') 7 connected0)
       = ''ws://localhost:8000/ws/483920'' # replicate 5 ''ws://localhost:8000/ws/483920''
   \<and> error_text (onclose (Some ''ws://localhost:8000/ws/483920'')
        (closures (Some ''ws://localhost:8000/ws/483920'') 5 connected0))
       = Some ''Failed to reconnect after multiple attempts''"
  using reconnect_backoff [of connected0 "''ws://localhost:8000/ws/483920''"]
  by (simp add: connected0_def onopen_def)

subsection \<open>The join form\<close>







subsection \<open>Wire messages\<close>

lemma declared_subset: "set (declared_fields t) \<subseteq> {''session_code'', ''pattern'', ''message'', ''user_count''}"
  by (cases t) auto

lemma table_subset: "set (table_fields t) \<subseteq> set (declared_fields t)"
  by (cases t) auto

lemma carried_subset: "set (carried_fields m) \<subseteq> set (declared_fields (msg_type m))"
proof (cases m)
  case (VibrateMessage p)
  then show ?thesis by (simp add: carried_fields_def)
next
  case (SessionMessage t c)
  then show ?thesis by (cases t) (auto simp: carried_fields_def)
next
  case (StatusMessage t c ms u)
  then show ?thesis by (cases t) (auto simp: carried_fields_def)
qed

lemma required_subset: "set (required_fields (msg_type m)) \<subseteq> set (carried_fields m)"
proof (cases m)
  case (VibrateMessage p)
  then show ?thesis by (simp add: carried_fields_def)
next
  case (SessionMessage t c)
  then show ?thesis by (cases t) (auto simp: carried_fields_def)
next
  case (StatusMessage t c ms u)
  then show ?thesis by (cases t) (auto simp: carried_fields_def)
qed

lemma vibrate_iff: "msg_type m = vibrate \<longleftrightarrow> (\<exists>p. m = VibrateMessage p)"
proof (cases m)
  case (VibrateMessage p)
  then show ?thesis by simp
next
  case (SessionMessage t c)
  then show ?thesis by (cases t) auto
next
  case (StatusMessage t c ms u)
  then show ?thesis by (cases t) auto
qed

text \<open>
  Claim C8, as amended. Every wire message has its \<open>type\<close>, one of the eight variants; the
  fields it carries besides are among those its interface declares, which are drawn from
  \<open>session_code\<close>, \<open>pattern\<close>, \<open>message\<close> and \<open>user_count\<close> and include the fields of the
  message table for that variant; the \<open>vibrate\<close> variant carries exactly its numeric
  \<open>pattern\<close>, which is required. The other fields are optional and are declared per
  interface, not per variant: a status message may carry any of \<open>session_code\<close>, \<open>message\<close>
  and \<open>user_count\<close>, and \<open>create_session\<close> may carry a \<open>session_code\<close>.
\<close>

theorem wire_message_fields:
  "set (carried_fields m) \<subseteq> set (declared_fields (msg_type m))
   \<and> set (required_fields (msg_type m)) \<subseteq> set (carried_fields m)
   \<and> set (table_fields t) \<subseteq> set (declared_fields t)
   \<and> set (declared_fields t) \<subseteq> {''session_code'', ''pattern'', ''message'', ''user_count''}
   \<and> (\<Union>t'. set (declared_fields t')) = {''session_code'', ''pattern'', ''message'', ''user_count''}
   \<and> (msg_type m = vibrate \<longleftrightarrow> (\<exists>p. m = VibrateMessage p))
   \<and> carried_fields (VibrateMessage p) = [''pattern'']
   \<and> msg_pattern (VibrateMessage p) = Some p
   \<and> declared_fields vibrate = table_fields vibrate
   \<and> declared_fields join_session = table_fields join_session"
proof -
  have "(\<Union>t'. set (declared_fields t')) \<subseteq> {''session_code'', ''pattern'', ''message'', ''user_count''}"
    using declared_subset by blast
  moreover have "{''session_code'', ''pattern'', ''message'', ''user_count''} \<subseteq> (\<Union>t'. set (declared_fields t'))"
  proof -
    have "set (declared_fields vibrate) \<union> set (declared_fields error) \<subseteq> (\<Union>t'. set (declared_fields t'))"
      by blast
    then show ?thesis by auto
  qed
  ultimately have u: "(\<Union>t'. set (declared_fields t')) = {''session_code'', ''pattern'', ''message'', ''user_count''}"
    by (rule subset_antisym)
  have v: "carried_fields (VibrateMessage p) = [''pattern'']" "msg_pattern (VibrateMessage p) = Some p"
    "declared_fields vibrate = table_fields vibrate" "declared_fields join_session = table_fields join_session"
    by (simp_all add: carried_fields_def)
  show ?thesis
    using carried_subset [of m] required_subset [of m] table_subset [of t] declared_subset [of t]
      u vibrate_iff [of m] v
    by blast
qed

theorem wire_message_fields_witness:
  "set (carried_fields (VibrateMessage (Num 3))) \<subseteq> set (declared_fields vibrate)
   \<and> carried_fields (VibrateMessage (Num 3)) = [''pattern'']
   \<and> msg_pattern (VibrateMessage (Num 3)) = Some (Num 3)
   \<and> set (table_fields error) \<subseteq> set (declared_fields error)
   \<and> carried_fields (StatusMessage type_error None (Some ''Session is full'') None) = [''message'']"
  using wire_message_fields [of "VibrateMessage (Num 3)" error "Num 3"]
  by (simp add: carried_fields_def)

text \<open>
  The claim C8 as it was stated fails: an \<open>error\<close> message that carries a \<open>user_count\<close> and
  no \<open>message\<close>, a \<open>partner_connected\<close> message without its \<open>user_count\<close> and a
  \<open>create_session\<close> message with a \<open>session_code\<close> are messages of the declared type, and
  none carries exactly the fields the table lists for its variant.
\<close>

theorem wire_message_fields_counterexample:
  "msg_type (StatusMessage type_error None None (Some 5)) = error
   \<and> carried_fields (StatusMessage type_error None None (Some 5)) = [''user_count'']
   \<and> table_fields error = [''message'']
   \<and> msg_type (StatusMessage type_partner_connected None None None) = partner_connected
   \<and> carried_fields (StatusMessage type_partner_connected None None None) = []
   \<and> table_fields partner_connected = [''user_count'']
   \<and> msg_type (SessionMessage type_create_session (Some ''483920'')) = create_session
   \<and> carried_fields (SessionMessage type_create_session (Some ''483920'')) = [''session_code'']
   \<and> table_fields create_session = []"
  by (simp add: carried_fields_def)

subsection \<open>The session-full alert\<close>

text \<open>
  Claim C1, the client's part. On the relay's error \<open>Session is full\<close>,
  frontend/src/App.tsx alerts that at most 2 users are allowed, where the README and the
  later version of the component name the capacity 5.
\<close>

theorem App_tsx_session_full_alert:
  "alerts (App_tsx_onMessage (StatusMessage type_error None (Some ''Session is full'') None) st)
     = alerts st @ [''Session is full. Maximum 2 users allowed.'']
   \<and> alerts (App_onMessage (StatusMessage type_error None (Some ''Session is full'') None) st')
     = alerts st' @ [''Session is full. Maximum 5 users allowed.'']"
  by (simp add: App_tsx_onMessage_def App_onMessage_def sublist_code)

section \<open>Properties of the relay\<close>

subsection \<open>Fresh codes\<close>

lemma six_digits_valid: "test_six_digits (six_digits n)"
proof -
  have d: "\<And>k. digit (''0123456789'' ! (k mod 10))"
  proof -
    fix k :: nat
    have "k mod 10 < length ''0123456789''" by simp
    then have "''0123456789'' ! (k mod 10) \<in> set ''0123456789''"
      by (rule nth_mem)
    then show "digit (''0123456789'' ! (k mod 10))"
      by (simp only: digit_def)
  qed
  show ?thesis
    unfolding test_six_digits_def six_digits_def
    by (simp add: d del: One_nat_def)
qed

lemma generate_first_free:
  assumes "reg (six_digits (draw j)) = None" and "i \<le> j"
    and "\<forall>k. i \<le> k \<and> k < j \<longrightarrow> reg (six_digits (draw k)) \<noteq> None"
  shows "generate draw reg i = Some (six_digits (draw j), j + 1)"
  using assms(2,3)
proof (induction "j - i" arbitrary: i)
  case 0
  then have "i = j" by simp
  then show ?case
    using assms(1) by (subst generate.simps) simp
next
  case (Suc d)
  then have lt: "i < j" by simp
  then have "reg (six_digits (draw i)) \<noteq> None"
    using Suc.prems by simp
  moreover have "generate draw reg (i + 1) = Some (six_digits (draw j), j + 1)"
    using Suc lt by (intro Suc.hyps) auto
  ultimately show ?case
    by (subst generate.simps) (simp add: Let_def)
qed

lemma generate_sound_aux:
  assumes "generate draw reg i = Some y"
  shows "reg (fst y) = None \<and> i < snd y \<and> fst y = six_digits (draw (snd y - 1))
     \<and> (\<forall>k. i \<le> k \<and> k < snd y - 1 \<longrightarrow> reg (six_digits (draw k)) \<noteq> None)"
proof (rule generate.raw_induct [where P = "\<lambda>draw reg i y.
     reg (fst y) = None \<and> i < snd y \<and> fst y = six_digits (draw (snd y - 1))
     \<and> (\<forall>k. i \<le> k \<and> k < snd y - 1 \<longrightarrow> reg (six_digits (draw k)) \<noteq> None)", OF _ assms])
  fix gen :: "(nat \<Rightarrow> nat) \<Rightarrow> registry \<Rightarrow> nat \<Rightarrow> (string \<times> nat) option"
    and draw :: "nat \<Rightarrow> nat" and reg :: registry and i :: nat and y :: "string \<times> nat"
  assume IH: "\<And>draw reg i y. gen draw reg i = Some y \<Longrightarrow>
     reg (fst y) = None \<and> i < snd y \<and> fst y = six_digits (draw (snd y - 1))
     \<and> (\<forall>k. i \<le> k \<and> k < snd y - 1 \<longrightarrow> reg (six_digits (draw k)) \<noteq> None)"
    and eq: "(let c = six_digits (draw i)
              in if reg c \<noteq> None then gen draw reg (i + 1) else Some (c, i + 1)) = Some y"
  show "reg (fst y) = None \<and> i < snd y \<and> fst y = six_digits (draw (snd y - 1))
     \<and> (\<forall>k. i \<le> k \<and> k < snd y - 1 \<longrightarrow> reg (six_digits (draw k)) \<noteq> None)"
  proof (cases "reg (six_digits (draw i)) = None")
    case True
    then have y: "y = (six_digits (draw i), i + 1)"
      using eq by (simp add: Let_def)
    show ?thesis
      unfolding y using True by auto
  next
    case False
    then have "gen draw reg (i + 1) = Some y"
      using eq by (simp add: Let_def)
    then have H: "reg (fst y) = None \<and> i + 1 < snd y \<and> fst y = six_digits (draw (snd y - 1))
       \<and> (\<forall>k. i + 1 \<le> k \<and> k < snd y - 1 \<longrightarrow> reg (six_digits (draw k)) \<noteq> None)"
      by (rule IH)
    have "\<And>k. i \<le> k \<and> k < snd y - 1 \<Longrightarrow> reg (six_digits (draw k)) \<noteq> None"
    proof -
      fix k assume k: "i \<le> k \<and> k < snd y - 1"
      show "reg (six_digits (draw k)) \<noteq> None"
      proof (cases "k = i")
        case True
        then show ?thesis using False by simp
      next
        case n: False
        then have "i + 1 \<le> k \<and> k < snd y - 1" using k by simp
        then show ?thesis using H by blast
      qed
    qed
    moreover have "i < snd y" using H by simp
    ultimately show ?thesis using H by blast
  qed
qed

lemma create_sound:
  assumes "create draw i now reg = Some (reg', s, i')"
  shows "s = \<lparr>code = six_digits (draw (i' - 1)), members = [], last_activity = now\<rparr>
       \<and> reg' = reg(code s \<mapsto> s) \<and> reg (code s) = None \<and> test_six_digits (code s) \<and> i < i'
       \<and> (\<forall>k. i \<le> k \<and> k < i' - 1 \<longrightarrow> reg (six_digits (draw k)) \<noteq> None)"
proof (cases "generate draw reg i")
  case None
  then show ?thesis using assms by (simp add: create_def)
next
  case (Some p)
  obtain c j where p: "p = (c, j)" by (cases p)
  have e: "reg' = reg(c \<mapsto> s)" "s = \<lparr>code = c, members = [], last_activity = now\<rparr>" "j = i'"
    using assms Some p by (auto simp: create_def Let_def)
  have g: "generate draw reg i = Some (c, i')"
    using Some p e(3) by simp
  have a: "reg c = None" "i < i'" "c = six_digits (draw (i' - 1))"
    "\<forall>k. i \<le> k \<and> k < i' - 1 \<longrightarrow> reg (six_digits (draw k)) \<noteq> None"
    using generate_sound_aux [OF g] by auto
  have c: "code s = c" using e(2) by simp
  have v: "test_six_digits c" unfolding a(3) by (rule six_digits_valid)
  have 1: "s = \<lparr>code = six_digits (draw (i' - 1)), members = [], last_activity = now\<rparr>"
    using e(2) a(3) by simp
  have 2: "reg' = reg(code s \<mapsto> s)"
    using e(1) c by simp
  have 3: "reg (code s) = None" "test_six_digits (code s)"
    using a(1) v c by simp_all
  show ?thesis
    using 1 2 3 a(2) a(4) by (intro conjI)
qed

text \<open>
  Claim C4. A create request returns a code of six decimal digits that no session of the
  registry is stored under or carries, and the generator re-samples whenever a candidate
  collides: whenever \<open>create\<close> returns, its code is the first draw that is free, every
  earlier draw collided and was re-sampled, and the session is inserted empty under that
  code; and \<open>create\<close> returns exactly when the random source yields a free code at some
  draw (a source whose every draw collides keeps the generator re-sampling).
\<close>

theorem create_fresh_code:
  "(\<forall>reg' s i'. create draw i now reg = Some (reg', s, i') \<longrightarrow>
      test_six_digits (code s)
      \<and> reg (code s) = None
      \<and> (keyed reg \<longrightarrow> (\<forall>c' s'. reg c' = Some s' \<longrightarrow> code s' \<noteq> code s) \<and> keyed reg')
      \<and> reg' = reg(code s \<mapsto> s) \<and> members s = []
      \<and> i < i' \<and> code s = six_digits (draw (i' - 1))
      \<and> (\<forall>k. i \<le> k \<and> k < i' - 1 \<longrightarrow> reg (six_digits (draw k)) \<noteq> None))
   \<and> ((create draw i now reg \<noteq> None) = (\<exists>j\<ge>i. reg (six_digits (draw j)) = None))"
proof -
  have sound: "\<forall>reg' s i'. create draw i now reg = Some (reg', s, i') \<longrightarrow>
      test_six_digits (code s)
      \<and> reg (code s) = None
      \<and> (keyed reg \<longrightarrow> (\<forall>c' s'. reg c' = Some s' \<longrightarrow> code s' \<noteq> code s) \<and> keyed reg')
      \<and> reg' = reg(code s \<mapsto> s) \<and> members s = []
      \<and> i < i' \<and> code s = six_digits (draw (i' - 1))
      \<and> (\<forall>k. i \<le> k \<and> k < i' - 1 \<longrightarrow> reg (six_digits (draw k)) \<noteq> None)"
  proof (intro allI impI)
    fix reg' s i'
    assume c: "create draw i now reg = Some (reg', s, i')"
    note S = create_sound [OF c]
    have k: "keyed reg \<longrightarrow> (\<forall>c' s'. reg c' = Some s' \<longrightarrow> code s' \<noteq> code s) \<and> keyed reg'"
    proof
      assume kr: "keyed reg"
      have 1: "\<forall>c' s'. reg c' = Some s' \<longrightarrow> code s' \<noteq> code s"
        using kr S by (auto simp: keyed_def)
      have "reg' = reg(code s \<mapsto> s)" using S by blast
      then have 2: "keyed reg'"
        using kr by (auto simp: keyed_def)
      show "(\<forall>c' s'. reg c' = Some s' \<longrightarrow> code s' \<noteq> code s) \<and> keyed reg'"
        using 1 2 by (rule conjI)
    qed
    have m: "members s = []" "code s = six_digits (draw (i' - 1))"
    proof -
      have "s = \<lparr>code = six_digits (draw (i' - 1)), members = [], last_activity = now\<rparr>"
        using S by blast
      then show "members s = []" "code s = six_digits (draw (i' - 1))" by simp_all
    qed
    show "test_six_digits (code s)
      \<and> reg (code s) = None
      \<and> (keyed reg \<longrightarrow> (\<forall>c' s'. reg c' = Some s' \<longrightarrow> code s' \<noteq> code s) \<and> keyed reg')
      \<and> reg' = reg(code s \<mapsto> s) \<and> members s = []
      \<and> i < i' \<and> code s = six_digits (draw (i' - 1))
      \<and> (\<forall>k. i \<le> k \<and> k < i' - 1 \<longrightarrow> reg (six_digits (draw k)) \<noteq> None)"
      using S k m by (intro conjI) blast+
  qed
  have iff: "(create draw i now reg \<noteq> None) = (\<exists>j\<ge>i. reg (six_digits (draw j)) = None)"
  proof
    assume "create draw i now reg \<noteq> None"
    then obtain reg' s i' where c: "create draw i now reg = Some (reg', s, i')"
      by (cases "create draw i now reg") auto
    note S = create_sound [OF c]
    have "i \<le> i' - 1" "reg (six_digits (draw (i' - 1))) = None"
    proof -
      show "i \<le> i' - 1" using S by linarith
      have cs: "code s = six_digits (draw (i' - 1))"
        using sound c by blast
      have "reg (code s) = None"
        using S by blast
      then show "reg (six_digits (draw (i' - 1))) = None"
        unfolding cs .
    qed
    then show "\<exists>j\<ge>i. reg (six_digits (draw j)) = None" by blast
  next
    assume e: "\<exists>j\<ge>i. reg (six_digits (draw j)) = None"
    then obtain j where j: "i \<le> j" "reg (six_digits (draw j)) = None" by blast
    define m where "m = (LEAST j. i \<le> j \<and> reg (six_digits (draw j)) = None)"
    have "i \<le> j \<and> reg (six_digits (draw j)) = None" using j by simp
    then have mj: "i \<le> m \<and> reg (six_digits (draw m)) = None"
      unfolding m_def by (rule LeastI)
    have least: "\<forall>k. i \<le> k \<and> k < m \<longrightarrow> reg (six_digits (draw k)) \<noteq> None"
    proof (intro allI impI)
      fix k assume k: "i \<le> k \<and> k < m"
      then have "\<not> (i \<le> k \<and> reg (six_digits (draw k)) = None)"
        unfolding m_def using not_less_Least by blast
      then show "reg (six_digits (draw k)) \<noteq> None"
        using k by simp
    qed
    have "generate draw reg i = Some (six_digits (draw m), m + 1)"
      using mj least by (intro generate_first_free) auto
    then show "create draw i now reg \<noteq> None"
      by (simp add: create_def Let_def)
  qed
  show ?thesis
    using sound iff by (rule conjI)
qed

lemma six_digits_examples:
  "six_digits 483920 = ''483920''" "six_digits 17 = ''000017''"
  by (simp_all add: six_digits_def)

lemma generate_example: "generate draw0 registry0 0 = Some (''000017'', 2)"
  using generate_first_free [of registry0 draw0 1 0]
  by (simp add: draw0_def registry0_def six_digits_examples)

theorem create_fresh_code_witness:
  "keyed registry0
   \<and> registry0 (six_digits (draw0 1)) = None
   \<and> create draw0 0 100 registry0
       = Some (registry0(''000017'' \<mapsto> \<lparr>code = ''000017'', members = [], last_activity = 100\<rparr>),
               \<lparr>code = ''000017'', members = [], last_activity = 100\<rparr>, 2)
   \<and> test_six_digits ''000017''
   \<and> registry0 ''000017'' = None
   \<and> registry0 (six_digits (draw0 0)) \<noteq> None"
proof -
  have k: "keyed registry0"
    by (simp add: keyed_def registry0_def session0_def)
  have f: "registry0 (six_digits (draw0 1)) = None" "registry0 (six_digits (draw0 0)) \<noteq> None"
    by (simp_all add: draw0_def registry0_def six_digits_examples)
  have c: "create draw0 0 100 registry0
       = Some (registry0(''000017'' \<mapsto> \<lparr>code = ''000017'', members = [], last_activity = 100\<rparr>),
               \<lparr>code = ''000017'', members = [], last_activity = 100\<rparr>, 2)"
    by (simp add: create_def generate_example Let_def)
  note T = create_fresh_code [of draw0 0 100 registry0]
  have v: "test_six_digits ''000017''" "registry0 ''000017'' = None"
    using T c by auto
  show ?thesis
    using k f c v by (intro conjI)
qed

subsection \<open>Broadcast\<close>

lemma count_list_distinct:
  "distinct xs \<Longrightarrow> x \<in> set xs \<Longrightarrow> count_list xs x = 1"
  by (induction xs) auto

lemma count_list_filter: "P x \<Longrightarrow> count_list (filter P xs) x = count_list xs x"
  by (induction xs) auto

lemma after_Nil: "after s [] = s"
  by (simp add: after_def)

lemma after_Cons: "after s (x # steps) = after (fst x) steps"
  by (simp add: after_def)

lemma after_append: "after s (xs @ ys) = after (after s xs) ys"
  by (simp add: after_def)

lemma sent_Nil: "sent [] = []"
  by (simp add: sent_def)

lemma sent_Cons: "sent (x # steps) = snd x @ sent steps"
  by (simp add: sent_def)

lemma sent_append: "sent (xs @ ys) = sent xs @ sent ys"
  by (simp add: sent_def)

lemma leave_members:
  "members (fst (leave ident now s)) = filter (\<lambda>x. identity x \<noteq> ident) (members s)"
proof (cases "ident \<in> set (map identity (members s))")
  case True
  then show ?thesis by (simp add: leave_def Let_def)
next
  case False
  then have "filter (\<lambda>x. identity x \<noteq> ident) (members s) = members s"
    by (auto simp: filter_id_conv)
  then show ?thesis using False by (simp add: leave_def)
qed

lemma leave_sends_partner_disconnected:
  "d \<in> set (snd (leave ident now s)) \<Longrightarrow> msg_type (snd d) = partner_disconnected"
  by (auto simp: leave_def Let_def partner_disconnected_msg_def split: if_splits)

lemma leave_last_activity:
  "last_activity s = now \<Longrightarrow> last_activity (fst (leave ident now s)) = now"
  by (simp add: leave_def Let_def)

lemma fan_out_payloads:
  assumes "msg_type payload \<noteq> partner_disconnected"
  shows "filter (\<lambda>d. msg_type (snd d) \<noteq> partner_disconnected) (sent (fan_out alive sender payload now s ms))
     = map (\<lambda>m. (identity m, payload))
         (filter (\<lambda>m. identity m \<noteq> sender \<and> alive (identity m)) ms)"
proof (induction ms arbitrary: s)
  case Nil
  then show ?case by (simp add: sent_Nil)
next
  case (Cons m ms)
  have l: "filter (\<lambda>d. msg_type (snd d) \<noteq> partner_disconnected) (snd (leave (identity m) now s)) = []"
    using leave_sends_partner_disconnected by (auto simp: filter_empty_conv)
  show ?case
    using assms Cons.IH l by (simp add: sent_Cons)
qed

lemma fan_out_members:
  "members (after s (fan_out alive sender payload now s ms))
     = filter (\<lambda>x. \<not> (\<exists>m \<in> set ms. identity m = identity x \<and> identity m \<noteq> sender \<and> \<not> alive (identity m)))
         (members s)"
proof (induction ms arbitrary: s)
  case Nil
  then show ?case by (simp add: after_Nil)
next
  case (Cons m ms)
  show ?case
  proof (cases "identity m \<noteq> sender \<and> \<not> alive (identity m)")
    case False
    then show ?thesis
      using Cons.IH [of s] by (auto simp: after_Cons intro: filter_cong)
  next
    case True
    then show ?thesis
      using Cons.IH [of "fst (leave (identity m) now s)"]
      by (auto simp: after_Cons leave_members intro: filter_cong)
  qed
qed

lemma fan_out_last_activity:
  "last_activity s = now \<Longrightarrow> last_activity (after s (fan_out alive sender payload now s ms)) = now"
proof (induction ms arbitrary: s)
  case Nil
  then show ?case by (simp add: after_Nil)
next
  case (Cons m ms)
  then show ?case
    by (simp add: after_Cons leave_last_activity)
qed

lemma fan_out_all_alive:
  "\<forall>m \<in> set ms. alive (identity m) \<Longrightarrow>
   fan_out alive sender payload now s ms
     = map (\<lambda>m. (s, [(identity m, payload)])) (filter (\<lambda>m. identity m \<noteq> sender) ms)"
  by (induction ms) auto

lemma fan_out_sends:
  "d \<in> set (sent (fan_out alive sender payload now s ms)) \<Longrightarrow>
     (snd d = payload \<and> fst d \<noteq> sender \<and> alive (fst d) \<and> fst d \<in> identity ` set ms)
     \<or> (msg_type (snd d) = partner_disconnected \<and> fst d \<in> identity ` set (members s))"
proof (induction ms arbitrary: s)
  case Nil
  then show ?case by (simp add: sent_Nil)
next
  case (Cons m ms)
  show ?case
  proof (cases "identity m = sender")
    case True
    then show ?thesis using Cons.IH [of s] Cons.prems by auto
  next
    case ns: False
    show ?thesis
    proof (cases "alive (identity m)")
      case True
      then show ?thesis using ns Cons.IH [of s] Cons.prems by (auto simp: sent_Cons)
    next
      case False
      have sub: "identity ` set (members (fst (leave (identity m) now s))) \<subseteq> identity ` set (members s)"
        by (auto simp: leave_members)
      from Cons.prems ns False
      consider "d \<in> set (snd (leave (identity m) now s))"
        | "d \<in> set (sent (fan_out alive sender payload now (fst (leave (identity m) now s)) ms))"
        by (auto simp: sent_Cons)
      then show ?thesis
      proof cases
        case 1
        then have "fst d \<in> identity ` set (members s)"
          by (auto simp: leave_def Let_def split: if_splits)
        then show ?thesis
          using 1 leave_sends_partner_disconnected by blast
      next
        case 2
        then show ?thesis
          using Cons.IH [of "fst (leave (identity m) now s)"] sub by auto
      qed
    qed
  qed
qed

text \<open>
  The identities of the members stay distinct when each connection joins once: a join of a
  new identity and a leave keep them so.
\<close>

lemma join_distinct:
  assumes "distinct (map identity (members s))" and "ident \<notin> set (map identity (members s))"
    and "join ident now s = Inr (s', out)"
  shows "distinct (map identity (members s'))"
proof (cases "length (members s) = capacity")
  case True
  then show ?thesis using assms(3) by (simp add: join_def)
next
  case False
  then have "members s' = members s @ [\<lparr>identity = ident, joined_at = now\<rparr>]"
    using assms(3) by (auto simp: join_def Let_def)
  then show ?thesis using assms(1,2) by simp
qed

lemma leave_distinct:
  assumes "distinct (map identity (members s))"
  shows "distinct (map identity (members (fst (leave ident now s))))"
    and "ident \<notin> set (map identity (members (fst (leave ident now s))))"
  using assms by (auto simp: leave_def Let_def distinct_map_filter)

text \<open>
  Claim C5. \<open>broadcast\<close> delivers the payload to the members other than the sender whose
  connection is alive, and never back to the sender: whatever it sends is either the
  payload, to a live connection that is not the sender's, or the \<open>partner_disconnected\<close>
  of an implicit leave, and the sender receives nothing but such notifications. For a
  session whose members have distinct identities (one member per connection) and a
  payload other than \<open>partner_disconnected\<close>, every member other than the sender whose
  connection is alive receives the payload exactly once, and the sender, a member whose
  connection is dead and anyone else never. The members other than the sender whose
  connection is dead have left when the broadcast ends, so every member of the session it
  leaves, the sender apart, has received the payload exactly once. \<open>last_activity\<close> is the
  time of the broadcast. When every connection is alive the members are left as they
  were, and the deliveries are the payload to each other member, in join order.
\<close>

theorem broadcast_delivery:
  "(distinct (map identity (members s)) \<and> msg_type payload \<noteq> partner_disconnected \<longrightarrow>
      (\<forall>r. count_list (sent (broadcast alive sender payload now s)) (r, payload)
             = (if r \<in> set (map identity (members s)) \<and> r \<noteq> sender \<and> alive r then 1 else 0))
      \<and> (\<forall>m \<in> set (members (after s (broadcast alive sender payload now s))).
             identity m \<noteq> sender \<longrightarrow>
             count_list (sent (broadcast alive sender payload now s)) (identity m, payload) = 1))
   \<and> (\<forall>d \<in> set (sent (broadcast alive sender payload now s)).
         (snd d = payload \<and> fst d \<noteq> sender \<and> alive (fst d))
         \<or> msg_type (snd d) = partner_disconnected)
   \<and> (\<forall>d \<in> set (sent (broadcast alive sender payload now s)).
         fst d = sender \<longrightarrow> msg_type (snd d) = partner_disconnected)
   \<and> members (after s (broadcast alive sender payload now s))
         = filter (\<lambda>m. alive (identity m) \<or> identity m = sender) (members s)
   \<and> last_activity (after s (broadcast alive sender payload now s)) = now
   \<and> ((\<forall>m \<in> set (members s). alive (identity m)) \<longrightarrow>
         sent (broadcast alive sender payload now s)
           = map (\<lambda>m. (identity m, payload)) (filter (\<lambda>m. identity m \<noteq> sender) (members s))
         \<and> members (after s (broadcast alive sender payload now s)) = members s
         \<and> count_list (map fst (sent (broadcast alive sender payload now s))) sender = 0
         \<and> (distinct (map identity (members s)) \<longrightarrow>
              (\<forall>m \<in> set (members s). identity m \<noteq> sender \<longrightarrow>
                 count_list (sent (broadcast alive sender payload now s)) (identity m, payload) = 1)))"
proof -
  let ?s0 = "s\<lparr>last_activity := now\<rparr>"
  let ?steps = "fan_out alive sender payload now ?s0 (members s)"
  let ?out = "sent (broadcast alive sender payload now s)"
  let ?aft = "after s (broadcast alive sender payload now s)"
  let ?to = "filter (\<lambda>m. identity m \<noteq> sender \<and> alive (identity m)) (members s)"
  have out: "?out = sent ?steps"
    by (simp add: broadcast_def sent_Cons)
  have aft: "?aft = after ?s0 ?steps"
    by (simp add: broadcast_def after_Cons)
  have 3: "members ?aft = filter (\<lambda>m. alive (identity m) \<or> identity m = sender) (members s)"
  proof -
    have "members (after ?s0 ?steps)
        = filter (\<lambda>x. \<not> (\<exists>m \<in> set (members s). identity m = identity x \<and> identity m \<noteq> sender
                              \<and> \<not> alive (identity m))) (members ?s0)"
      by (rule fan_out_members)
    also have "\<dots> = filter (\<lambda>m. alive (identity m) \<or> identity m = sender) (members s)"
      by (auto intro: filter_cong)
    finally show ?thesis using aft by simp
  qed
  have 1: "distinct (map identity (members s)) \<and> msg_type payload \<noteq> partner_disconnected \<longrightarrow>
      (\<forall>r. count_list ?out (r, payload)
             = (if r \<in> set (map identity (members s)) \<and> r \<noteq> sender \<and> alive r then 1 else 0))
      \<and> (\<forall>m \<in> set (members ?aft). identity m \<noteq> sender \<longrightarrow> count_list ?out (identity m, payload) = 1)"
  proof
    assume h: "distinct (map identity (members s)) \<and> msg_type payload \<noteq> partner_disconnected"
    then have np: "msg_type payload \<noteq> partner_disconnected" by simp
    have pay: "filter (\<lambda>d. msg_type (snd d) \<noteq> partner_disconnected) ?out
        = map (\<lambda>m. (identity m, payload)) ?to"
      unfolding out using np by (rule fan_out_payloads)
    have dist: "distinct (map (\<lambda>m. (identity m, payload)) ?to)"
    proof -
      have "distinct (map identity ?to)"
        using h by (simp add: distinct_map_filter)
      then have "distinct (map (\<lambda>i. (i, payload)) (map identity ?to))"
        by (simp add: distinct_map inj_on_def)
      then show ?thesis by (simp add: comp_def)
    qed
    have cnt: "count_list ?out (r, payload)
        = (if r \<in> set (map identity (members s)) \<and> r \<noteq> sender \<and> alive r then 1 else 0)" for r
    proof -
      have "count_list ?out (r, payload)
          = count_list (filter (\<lambda>d. msg_type (snd d) \<noteq> partner_disconnected) ?out) (r, payload)"
        using np by (simp add: count_list_filter)
      then have c: "count_list ?out (r, payload) = count_list (map (\<lambda>m. (identity m, payload)) ?to) (r, payload)"
        using pay by simp
      show ?thesis
      proof (cases "r \<in> set (map identity (members s)) \<and> r \<noteq> sender \<and> alive r")
        case True
        then have "(r, payload) \<in> set (map (\<lambda>m. (identity m, payload)) ?to)"
          by auto
        then have "count_list (map (\<lambda>m. (identity m, payload)) ?to) (r, payload) = 1"
          using dist by (intro count_list_distinct)
        then show ?thesis using c True by simp
      next
        case False
        then have "(r, payload) \<notin> set (map (\<lambda>m. (identity m, payload)) ?to)"
          by auto
        then have "count_list (map (\<lambda>m. (identity m, payload)) ?to) (r, payload) = 0"
          using count_list_0_iff by fastforce
        then show ?thesis using c False by simp
      qed
    qed
    have "\<forall>m \<in> set (members ?aft). identity m \<noteq> sender \<longrightarrow> count_list ?out (identity m, payload) = 1"
      unfolding 3 using cnt by auto
    then show "(\<forall>r. count_list ?out (r, payload)
             = (if r \<in> set (map identity (members s)) \<and> r \<noteq> sender \<and> alive r then 1 else 0))
      \<and> (\<forall>m \<in> set (members ?aft). identity m \<noteq> sender \<longrightarrow> count_list ?out (identity m, payload) = 1)"
      using cnt by blast
  qed
  have 2: "\<forall>d \<in> set ?out. (snd d = payload \<and> fst d \<noteq> sender \<and> alive (fst d))
             \<or> msg_type (snd d) = partner_disconnected"
    unfolding out using fan_out_sends [of _ alive sender payload now ?s0 "members s"] by blast
  have 7: "\<forall>d \<in> set ?out. fst d = sender \<longrightarrow> msg_type (snd d) = partner_disconnected"
    using 2 by blast
  have 5: "last_activity ?aft = now"
    unfolding aft by (rule fan_out_last_activity) simp
  have 6: "(\<forall>m \<in> set (members s). alive (identity m)) \<longrightarrow>
             ?out = map (\<lambda>m. (identity m, payload)) (filter (\<lambda>m. identity m \<noteq> sender) (members s))
             \<and> members ?aft = members s
             \<and> count_list (map fst ?out) sender = 0
             \<and> (distinct (map identity (members s)) \<longrightarrow>
                  (\<forall>m \<in> set (members s). identity m \<noteq> sender \<longrightarrow>
                     count_list ?out (identity m, payload) = 1))"
  proof
    assume a: "\<forall>m \<in> set (members s). alive (identity m)"
    let ?others = "filter (\<lambda>m. identity m \<noteq> sender) (members s)"
    have "?steps = map (\<lambda>m. (?s0, [(identity m, payload)])) ?others"
      using a by (rule fan_out_all_alive)
    then have o: "?out = map (\<lambda>m. (identity m, payload)) ?others"
      unfolding out by (simp add: sent_def comp_def concat_map_singleton)
    have m: "members ?aft = members s"
      using a 3 by (simp add: filter_id_conv)
    have z: "count_list (map fst ?out) sender = 0"
      unfolding o by (auto simp: count_list_0_iff comp_def)
    have e: "distinct (map identity (members s)) \<longrightarrow>
        (\<forall>m \<in> set (members s). identity m \<noteq> sender \<longrightarrow> count_list ?out (identity m, payload) = 1)"
    proof (intro impI ballI)
      fix m
      assume d: "distinct (map identity (members s))" and mm: "m \<in> set (members s)"
        and n: "identity m \<noteq> sender"
      have "distinct (map identity ?others)"
        using d by (rule distinct_map_filter)
      then have "distinct (map (\<lambda>i. (i, payload)) (map identity ?others))"
        by (simp add: distinct_map inj_on_def)
      then have "distinct (map (\<lambda>m. (identity m, payload)) ?others)"
        by (simp add: comp_def)
      moreover have "(identity m, payload) \<in> set (map (\<lambda>m. (identity m, payload)) ?others)"
        using mm n by auto
      ultimately show "count_list ?out (identity m, payload) = 1"
        unfolding o by (rule count_list_distinct)
    qed
    show "?out = map (\<lambda>m. (identity m, payload)) ?others
             \<and> members ?aft = members s
             \<and> count_list (map fst ?out) sender = 0
             \<and> (distinct (map identity (members s)) \<longrightarrow>
                  (\<forall>m \<in> set (members s). identity m \<noteq> sender \<longrightarrow>
                     count_list ?out (identity m, payload) = 1))"
      using o m z e by (intro conjI)
  qed
  show ?thesis
    using 1 2 7 3 5 6 by (intro conjI)
qed

lemma broadcast_example_dead:
  "broadcast (\<lambda>i. i \<noteq> 3) 2 (VibrateMessage (Num 3)) 40 session3
     = [(session3\<lparr>last_activity := 40\<rparr>, []),
        (session3\<lparr>last_activity := 40\<rparr>, [(1, VibrateMessage (Num 3))]),
        (session3\<lparr>members := [\<lparr>identity = 1, joined_at = 10\<rparr>, \<lparr>identity = 2, joined_at = 20\<rparr>],
                  last_activity := 40\<rparr>,
         [(1, partner_disconnected_msg 2), (2, partner_disconnected_msg 2)])]"
  by (simp add: broadcast_def session3_def leave_def Let_def partner_disconnected_msg_def)

lemma broadcast_example_alive:
  "sent (broadcast (\<lambda>i. True) 2 (VibrateMessage (Num 3)) 40 session3)
     = [(1, VibrateMessage (Num 3)), (3, VibrateMessage (Num 3))]"
  by (simp add: broadcast_def session3_def sent_def)

theorem broadcast_delivery_witness:
  "distinct (map identity (members session3))
   \<and> msg_type (VibrateMessage (Num 3)) \<noteq> partner_disconnected
   \<and> sent (broadcast (\<lambda>i. True) 2 (VibrateMessage (Num 3)) 40 session3)
       = [(1, VibrateMessage (Num 3)), (3, VibrateMessage (Num 3))]
   \<and> sent (broadcast (\<lambda>i. i \<noteq> 3) 2 (VibrateMessage (Num 3)) 40 session3)
       = [(1, VibrateMessage (Num 3)), (1, partner_disconnected_msg 2), (2, partner_disconnected_msg 2)]
   \<and> count_list (sent (broadcast (\<lambda>i. i \<noteq> 3) 2 (VibrateMessage (Num 3)) 40 session3))
        (1, VibrateMessage (Num 3)) = 1
   \<and> count_list (sent (broadcast (\<lambda>i. i \<noteq> 3) 2 (VibrateMessage (Num 3)) 40 session3))
        (2, VibrateMessage (Num 3)) = 0
   \<and> count_list (sent (broadcast (\<lambda>i. i \<noteq> 3) 2 (VibrateMessage (Num 3)) 40 session3))
        (3, VibrateMessage (Num 3)) = 0
   \<and> map identity (members (after session3 (broadcast (\<lambda>i. i \<noteq> 3) 2 (VibrateMessage (Num 3)) 40 session3)))
       = [1, 2]"
proof -
  have h: "distinct (map identity (members session3))"
    "msg_type (VibrateMessage (Num 3)) \<noteq> partner_disconnected"
    by (simp_all add: session3_def)
  note T = broadcast_delivery [of session3 "VibrateMessage (Num 3)" "\<lambda>i. i \<noteq> 3" 2 40]
  have C: "\<forall>r. count_list (sent (broadcast (\<lambda>i. i \<noteq> 3) 2 (VibrateMessage (Num 3)) 40 session3))
        (r, VibrateMessage (Num 3))
      = (if r \<in> set (map identity (members session3)) \<and> r \<noteq> 2 \<and> r \<noteq> 3 then 1 else 0)"
    using T [THEN conjunct1] h by blast
  have c: "count_list (sent (broadcast (\<lambda>i. i \<noteq> 3) 2 (VibrateMessage (Num 3)) 40 session3))
        (1, VibrateMessage (Num 3)) = 1"
    "count_list (sent (broadcast (\<lambda>i. i \<noteq> 3) 2 (VibrateMessage (Num 3)) 40 session3))
        (2, VibrateMessage (Num 3)) = 0"
    "count_list (sent (broadcast (\<lambda>i. i \<noteq> 3) 2 (VibrateMessage (Num 3)) 40 session3))
        (3, VibrateMessage (Num 3)) = 0"
    using C by (simp_all add: session3_def)
  have m: "map identity (members (after session3 (broadcast (\<lambda>i. i \<noteq> 3) 2 (VibrateMessage (Num 3)) 40 session3)))
       = [1, 2]"
    using T [THEN conjunct2, THEN conjunct2, THEN conjunct2, THEN conjunct1]
    by (simp add: session3_def)
  have d: "sent (broadcast (\<lambda>i. i \<noteq> 3) 2 (VibrateMessage (Num 3)) 40 session3)
       = [(1, VibrateMessage (Num 3)), (1, partner_disconnected_msg 2), (2, partner_disconnected_msg 2)]"
    by (simp add: broadcast_example_dead sent_def)
  show ?thesis
    using h c m d broadcast_example_alive by (intro conjI)
qed

subsection \<open>Idle sessions\<close>

lemma sweeps_absent: "reg c = None \<Longrightarrow> sweeps due until reg c = None"
proof (induction due until reg rule: sweeps.induct)
  case (1 due until reg)
  show ?case
  proof (cases "due \<le> until")
    case True
    have "reap due reg c = None"
      using "1.prems" by (simp add: reap_def)
    then have "sweeps (due + sweep_interval) until (reap due reg) c = None"
      using True by (rule "1.IH" [rotated])
    then show ?thesis
      using True by (subst sweeps.simps) simp
  next
    case False
    then show ?thesis
      using "1.prems" by (subst sweeps.simps) simp
  qed
qed


lemma sweeps_lookup:
  assumes "reg c = Some s" and "members s = []"
  shows "sweeps due until reg c =
     (if \<exists>k. last_activity s + idle_timeout \<le> due + k * sweep_interval
            \<and> due + k * sweep_interval \<le> until
      then None else Some s)"
  using assms(1)
proof (induction due until reg rule: sweeps.induct)
  case (1 due until reg)
  let ?P = "\<lambda>d. \<exists>k. last_activity s + idle_timeout \<le> d + k * sweep_interval
                    \<and> d + k * sweep_interval \<le> until"
  show ?case
  proof (cases "due \<le> until")
    case False
    then have "\<not> ?P due" by auto
    then show ?thesis
      using False "1.prems" by (subst sweeps.simps) simp
  next
    case True
    show ?thesis
    proof (cases "reclaimable due s")
      case r: True
      then have "idle_timeout \<le> due - last_activity s"
        by (simp add: reclaimable_def)
      then have "last_activity s + idle_timeout \<le> due"
        unfolding idle_timeout_def by arith
      then have "last_activity s + idle_timeout \<le> due + 0 * sweep_interval
                 \<and> due + 0 * sweep_interval \<le> until"
        using True by simp
      then have "?P due" by blast
      moreover have "reap due reg c = None"
        using r "1.prems" by (simp add: reap_def)
      then have "sweeps (due + sweep_interval) until (reap due reg) c = None"
        by (rule sweeps_absent)
      ultimately show ?thesis
        using True by (subst sweeps.simps) simp
    next
      case n: False
      then have "\<not> idle_timeout \<le> due - last_activity s"
        using assms(2) by (simp add: reclaimable_def)
      then have lt: "due < last_activity s + idle_timeout"
        by arith
      have keep: "reap due reg c = Some s"
        using n "1.prems" by (simp add: reap_def)
      have "?P due \<longleftrightarrow> ?P (due + sweep_interval)"
      proof
        assume "?P due"
        then obtain k where k: "last_activity s + idle_timeout \<le> due + k * sweep_interval"
          "due + k * sweep_interval \<le> until" by blast
        then have "k \<noteq> 0" using lt by (cases k) auto
        then obtain k' where "k = Suc k'" by (cases k) auto
        then have "last_activity s + idle_timeout \<le> (due + sweep_interval) + k' * sweep_interval
                 \<and> (due + sweep_interval) + k' * sweep_interval \<le> until"
          using k by simp
        then show "?P (due + sweep_interval)" by blast
      next
        assume "?P (due + sweep_interval)"
        then obtain k where "last_activity s + idle_timeout \<le> (due + sweep_interval) + k * sweep_interval"
          "(due + sweep_interval) + k * sweep_interval \<le> until" by blast
        then have "last_activity s + idle_timeout \<le> due + Suc k * sweep_interval
                 \<and> due + Suc k * sweep_interval \<le> until"
          by simp
        then show "?P due" by blast
      qed
      moreover have "sweeps (due + sweep_interval) until (reap due reg) c =
          (if ?P (due + sweep_interval) then None else Some s)"
        using True keep by (rule "1.IH")
      ultimately show ?thesis
        using True by (subst sweeps.simps) simp
    qed
  qed
qed

lemma lookup_idle:
  assumes "reg c = Some s" and "members s = []"
  shows "lookup t (sweeps due t reg) c =
     (if idle_timeout \<le> t - last_activity s then Inl SessionNotFound else Inr s)"
proof -
  let ?P = "\<exists>k. last_activity s + idle_timeout \<le> due + k * sweep_interval
                 \<and> due + k * sweep_interval \<le> t"
  have L: "sweeps due t reg c = (if ?P then None else Some s)"
    using assms by (rule sweeps_lookup)
  show ?thesis
  proof (cases ?P)
    case True
    then obtain k where "last_activity s + idle_timeout \<le> due + k * sweep_interval"
      "due + k * sweep_interval \<le> t" by blast
    then have "idle_timeout \<le> t - last_activity s" by linarith
    then show ?thesis using True L by (simp add: lookup_def)
  next
    case False
    then have "sweeps due t reg c = Some s"
      using L by simp
    then show ?thesis using assms(2) by (simp add: lookup_def reclaimable_def)
  qed
qed


lemma join_target_idle:
  assumes "reg c = Some s" and "members s = []" and "test_six_digits c"
  shows "join_target (sweeps due t reg) c ident t =
     (if idle_timeout \<le> t - last_activity s then Inl SessionNotFound
      else Inr ((sweeps due t reg)(c \<mapsto> s\<lparr>members := [\<lparr>identity = ident, joined_at = t\<rparr>],
                                              last_activity := t\<rparr>),
                [(ident, session_joined_msg c)]))"
proof -
  have J: "join ident t s = Inr (s\<lparr>members := [\<lparr>identity = ident, joined_at = t\<rparr>], last_activity := t\<rparr>, [])"
    using assms(2) by (simp add: join_def capacity_def Let_def)
  show ?thesis
    using assms(3) lookup_idle [of reg c s t due, OF assms(1,2)]
    by (simp add: join_target_def J)
qed



subsection \<open>The relay's own format check\<close>

lemma join_target_invalid:
  "\<not> test_six_digits target \<Longrightarrow> join_target reg target ident now = Inl InvalidCode"
  by (simp add: join_target_def)

lemma join_target_full:
  assumes "test_six_digits target" and "reg target = Some s" and "length (members s) = capacity"
  shows "join_target reg target ident now = Inl SessionFull"
    and "error_reply SessionFull = Some (error_msg ''Session is full'')"
proof -
  have "members s \<noteq> []"
    using assms(3) by (auto simp: capacity_def)
  then show "join_target reg target ident now = Inl SessionFull"
    using assms by (simp add: join_target_def lookup_def reclaimable_def join_def)
  show "error_reply SessionFull = Some (error_msg ''Session is full'')"
    by simp
qed

subsection \<open>Capacity\<close>

lemma join_full: "length (members s) = capacity \<Longrightarrow> join ident now s = Inl SessionFull"
  by (simp add: join_def)

lemma join_bounded:
  assumes "length (members s) \<le> capacity" and "join ident now s = Inr (s', out)"
  shows "length (members s') \<le> capacity \<and> length (members s') = Suc (length (members s))"
proof (cases "length (members s) = capacity")
  case True
  then show ?thesis using assms(2) by (simp add: join_def)
next
  case False
  then have "s' = s\<lparr>members := members s @ [\<lparr>identity = ident, joined_at = now\<rparr>], last_activity := now\<rparr>"
    using assms(2) by (simp add: join_def Let_def)
  then show ?thesis using assms(1) False by simp
qed

lemma leave_bounded: "length (members (fst (leave ident now s))) \<le> length (members s)"
  by (simp add: leave_members)

lemma fan_out_bounded:
  "st \<in> set (fan_out alive sender payload now s ms) \<Longrightarrow>
     length (members (fst st)) \<le> length (members s)"
proof (induction ms arbitrary: s)
  case Nil
  then show ?case by simp
next
  case (Cons m ms)
  show ?case
  proof (cases "identity m = sender")
    case True
    then show ?thesis using Cons.IH [of s] Cons.prems by simp
  next
    case ns: False
    show ?thesis
    proof (cases "alive (identity m)")
      case True
      then show ?thesis using ns Cons.IH [of s] Cons.prems by auto
    next
      case False
      from Cons.prems ns False
      consider "st = leave (identity m) now s"
        | "st \<in> set (fan_out alive sender payload now (fst (leave (identity m) now s)) ms)"
        by auto
      then show ?thesis
      proof cases
        case 1
        then show ?thesis using leave_bounded [of "identity m" now s] by simp
      next
        case 2
        then have "length (members (fst st)) \<le> length (members (fst (leave (identity m) now s)))"
          by (rule Cons.IH)
        then show ?thesis using leave_bounded [of "identity m" now s] by linarith
      qed
    qed
  qed
qed

lemma after_cases: "after s steps = s \<or> after s steps \<in> fst ` set steps"
  by (simp add: after_def)

lemma apply_op_bounded:
  assumes "length (members s) \<le> capacity" and "st \<in> set (apply_op s x)"
  shows "length (members (fst st)) \<le> capacity"
proof -
  obtain o' now alive where x: "x = (o', now, alive)" by (cases x)
  show ?thesis
  proof (cases o')
    case (Join ident)
    show ?thesis
    proof (cases "join ident now s")
      case (Inl e)
      then show ?thesis using assms x Join by simp
    next
      case (Inr r)
      obtain s' out where r: "r = (s', out)" by (cases r)
      have "length (members s') \<le> capacity"
        using join_bounded [OF assms(1)] Inr r by blast
      then show ?thesis using assms(2) x Join Inr r by simp
    qed
  next
    case (Leave ident)
    have "length (members (fst (leave ident now s))) \<le> capacity"
      using assms(1) leave_bounded [of ident now s] by linarith
    then show ?thesis using assms(2) x Leave by simp
  next
    case (Relay sender pattern)
    show ?thesis
    proof (cases "pattern \<in> {Num 1, Num 2, Num 3, Num 4}")
      case False
      then show ?thesis using assms(2) x Relay by (simp add: on_vibrate_def)
    next
      case True
      then have "st = (s\<lparr>last_activity := now\<rparr>, [])
          \<or> st \<in> set (fan_out alive sender (VibrateMessage pattern) now (s\<lparr>last_activity := now\<rparr>) (members s))"
        using assms(2) x Relay by (auto simp: on_vibrate_def broadcast_def)
      then show ?thesis
      proof
        assume "st = (s\<lparr>last_activity := now\<rparr>, [])"
        then show ?thesis using assms(1) by simp
      next
        assume "st \<in> set (fan_out alive sender (VibrateMessage pattern) now (s\<lparr>last_activity := now\<rparr>) (members s))"
        then have "length (members (fst st)) \<le> length (members (s\<lparr>last_activity := now\<rparr>))"
          by (rule fan_out_bounded)
        then show ?thesis using assms(1) by simp
      qed
    qed
  qed
qed

lemma run_ops_bounded:
  assumes "length (members s) \<le> capacity"
  shows "(\<forall>st \<in> set (run_ops s xs). length (members (fst st)) \<le> capacity)
       \<and> length (members (after s (run_ops s xs))) \<le> capacity"
  using assms
proof (induction xs arbitrary: s)
  case Nil
  then show ?case by (simp add: after_Nil)
next
  case (Cons x xs)
  have a: "\<forall>st \<in> set (apply_op s x). length (members (fst st)) \<le> capacity"
    using apply_op_bounded [OF Cons.prems] by blast
  have "length (members (after s (apply_op s x))) \<le> capacity"
    using after_cases [of s "apply_op s x"] a Cons.prems by auto
  then have "(\<forall>st \<in> set (run_ops (after s (apply_op s x)) xs). length (members (fst st)) \<le> capacity)
       \<and> length (members (after (after s (apply_op s x)) (run_ops (after s (apply_op s x)) xs))) \<le> capacity"
    by (rule Cons.IH)
  then show ?case
    using a by (auto simp: after_append)
qed

subsection \<open>Member counts\<close>










subsection \<open>The scenarios of section 8 of the specification\<close>

text \<open>
  The model runs the end-to-end scenarios as the specification tells them: the creation of
  483920, the joins of the second to fifth connection with the counts 2 to 5 sent to the
  earlier members, the rejection of the sixth, a \<open>vibrate\<close> relayed to the four others, and
  the join that fails 61 minutes after the last member has left.
\<close>

lemma six_digits_483920: "six_digits 483920 = ''483920''"
  by (simp add: six_digits_def)

lemma generate_483920: "generate (\<lambda>i. 483920) Map.empty 0 = Some (''483920'', 1)"
  by (subst generate.simps) (simp add: six_digits_483920)

lemma valid_483920: "test_six_digits ''483920''"
  by (simp add: test_six_digits_def digit_def)

lemma scenario_create:
  "open_new (\<lambda>i. 483920) 0 1 0 Map.empty
     = Some (Inr (registry1, 1, [(1, session_created_msg ''483920'')]))"
  by (simp add: open_new_def create_def generate_483920 join_def capacity_def registry1_def Let_def)

lemma scenario_join:
  assumes "0 < n" "n < 5"
  shows "join_target [''483920'' \<mapsto> session_of n] ''483920'' (Suc n) n
     = Inr ([''483920'' \<mapsto> session_of (Suc n)],
            (Suc n, session_joined_msg ''483920'') # map (\<lambda>k. (Suc k, partner_connected_msg (Suc n))) [0..<n])"
  using assms
  by (simp add: join_target_def valid_483920 lookup_def reclaimable_def join_def capacity_def
      session_of_def Let_def filter_map comp_def)

lemma scenario_full:
  "join_target [''483920'' \<mapsto> session_of 5] ''483920'' 6 5 = Inl SessionFull
   \<and> error_reply SessionFull = Some (error_msg ''Session is full'')"
  by (simp add: join_target_def valid_483920 lookup_def reclaimable_def join_def capacity_def
      session_of_def)

lemma scenario_vibrate:
  "on_vibrate (\<lambda>i. True) 2 (Num 3) 9 (session_of 5)
     = Inr [((session_of 5)\<lparr>last_activity := 9\<rparr>, []),
            ((session_of 5)\<lparr>last_activity := 9\<rparr>, [(1, VibrateMessage (Num 3))]),
            ((session_of 5)\<lparr>last_activity := 9\<rparr>, [(3, VibrateMessage (Num 3))]),
            ((session_of 5)\<lparr>last_activity := 9\<rparr>, [(4, VibrateMessage (Num 3))]),
            ((session_of 5)\<lparr>last_activity := 9\<rparr>, [(5, VibrateMessage (Num 3))])]
   \<and> on_vibrate (\<lambda>i. True) 2 (Num 7) 9 (session_of 5) = Inl InvalidPattern"
  by (simp add: on_vibrate_def broadcast_def session_of_def upt_rec)

lemma scenario_expired:
  "close_connection registry1 ''483920'' 1 100 = (registry0(''483920'' \<mapsto> session0\<lparr>last_activity := 100\<rparr>), [])
   \<and> join_target (sweeps due (100 + 61 * 60) (registry0(''483920'' \<mapsto> session0\<lparr>last_activity := 100\<rparr>)))
        ''483920'' 2 (100 + 61 * 60) = Inl SessionNotFound
   \<and> error_reply SessionNotFound = Some (error_msg ''Session not found'')"
proof -
  have "close_connection registry1 ''483920'' 1 100 = (registry0(''483920'' \<mapsto> session0\<lparr>last_activity := 100\<rparr>), [])"
    by (simp add: close_connection_def registry1_def registry0_def session0_def leave_def Let_def)
  moreover have "join_target (sweeps due (100 + 61 * 60) (registry0(''483920'' \<mapsto> session0\<lparr>last_activity := 100\<rparr>)))
        ''483920'' 2 (100 + 61 * 60) = Inl SessionNotFound"
    using join_target_idle [of "registry0(''483920'' \<mapsto> session0\<lparr>last_activity := 100\<rparr>)" "''483920''"
        "session0\<lparr>last_activity := 100\<rparr>" due "100 + 61 * 60" 2]
    by (simp add: session0_def valid_483920 idle_timeout_def)
  ultimately show ?thesis by simp
qed

end
